theory Spec2Isabelle
  imports Complex_Main "HOL-Library.Sublist" "HOL-Library.AList"
begin

text \<open>
  A shallow embedding of two units of the search-ui repository:
  \<^item> the \<open>AnalyticsSuggestions\<close> component
    (\<^verbatim>\<open>ui/AnalyticsSuggestions/AnalyticsSuggestions.ts\<close>): its data cleaning
    (\<open>cleanCustomData\<close>), the population of the omnibox, programmatic selection and the
    event logged on selection;
  \<^item> the \<open>AnalyticsEndpoint\<close> class (\<^verbatim>\<open>unnamed/part_000\<close>): sending of
    events through the process-wide \<open>pendingRequest\<close> slot, the queries and the visit
    bookkeeping.

  Strings are \<^typ>\<open>string\<close>: one \<^typ>\<open>char\<close> stands for one code unit of a JavaScript
  string, so \<^const>\<open>length\<close> is the source's \<^verbatim>\<open>.length\<close>. Numbers that the source
  only counts with (lengths, budgets, indices) are \<^typ>\<open>int\<close> or \<^typ>\<open>nat\<close>.
\<close>

section \<open>AnalyticsSuggestions: cleaning of custom data\<close>

text \<open>
  \<^verbatim>\<open>cleanCustomData(toClean, rejectLength = 256)\<close>, lines 142 to 173. Its three steps are
  modelled one by one.

  Step 1 is the \<^verbatim>\<open>_.filter\<close> whose callback keeps the entry at \<open>pos\<close> when
  \<^verbatim>\<open>pos === 0 || partial !== array[pos - 1]\<close>; \<open>array\<close> is the list being filtered.
\<close>

definition filterConsecutive :: "'a list \<Rightarrow> 'a list" where
  "filterConsecutive toClean =
     map (\<lambda>pos. toClean ! pos)
       (filter (\<lambda>pos. pos = 0 \<or> toClean ! pos \<noteq> toClean ! (pos - 1)) [0..<length toClean])"

text \<open>Step 2: \<^verbatim>\<open>partial.replace(/;/g, '')\<close> on every entry.\<close>

definition stripDelimiter :: "string \<Rightarrow> string" where
  "stripDelimiter partial = filter (\<lambda>c. c \<noteq> CHR '';'') partial"

text \<open>
  Step 3: \<^verbatim>\<open>_.reduceRight\<close> with the running total \<open>memo\<close> (initially 0). The callback
  adds the length of the entry to the total, pushes the entry onto
  \<open>reducedToRejectLengthOrLess\<close> when the new total is at most \<open>rejectLength\<close>, and returns
  the new total whether or not the entry was pushed. \<^const>\<open>foldr\<close> visits the last entry
  first, as \<^verbatim>\<open>reduceRight\<close> does; the accumulator is the pair of the total and the
  pushed entries, which the source reverses afterwards.
\<close>

definition reduceStep :: "int \<Rightarrow> string \<Rightarrow> int \<times> string list \<Rightarrow> int \<times> string list" where
  "reduceStep rejectLength partial acc =
     (let totalSoFar = fst acc + int (length partial)
      in (totalSoFar, if totalSoFar \<le> rejectLength then snd acc @ [partial] else snd acc))"

definition reduceToRejectLength :: "int \<Rightarrow> string list \<Rightarrow> string list" where
  "reduceToRejectLength rejectLength toClean =
     rev (snd (foldr (reduceStep rejectLength) toClean (0, [])))"

text \<open>\<^verbatim>\<open>Array.prototype.join(';')\<close>.\<close>

fun join :: "string list \<Rightarrow> string" where
  "join [] = []"
| "join [x] = x"
| "join (x # y # ys) = x @ '';'' @ join (y # ys)"

text \<open>One pass of the function body: steps 1 to 3, giving the new value of \<open>toClean\<close>.\<close>

definition cleanPass :: "int \<Rightarrow> string list \<Rightarrow> string list" where
  "cleanPass rejectLength toClean =
     reduceToRejectLength rejectLength (map stripDelimiter (filterConsecutive toClean))"

text \<open>
  The function calls itself with the reduced list and a budget smaller by 10 when the joined
  string has 256 characters or more. The recursion ends: a pass that keeps an entry has a
  budget of at least 0 (the total is never negative), and a pass that keeps nothing joins to
  the empty string.
\<close>

lemma reduce_total: "fst (foldr (reduceStep r) xs (0, [])) = int (length (concat xs))"
  by (induction xs) (simp_all add: reduceStep_def Let_def)

lemma reduce_nonneg: "reduceToRejectLength r xs \<noteq> [] \<Longrightarrow> 0 \<le> r"
proof (induction xs)
  case Nil
  then show ?case by (simp add: reduceToRejectLength_def)
next
  case (Cons x xs)
  show ?case
  proof (cases "reduceToRejectLength r xs = []")
    case True
    with Cons.prems have "fst (foldr (reduceStep r) xs (0, [])) + int (length x) \<le> r"
      by (auto simp: reduceToRejectLength_def reduceStep_def Let_def split: if_splits)
    then show ?thesis by (simp add: reduce_total)
  next
    case False
    then show ?thesis by (rule Cons.IH)
  qed
qed

lemma retry_budget: "256 \<le> length (join (cleanPass r toClean)) \<Longrightarrow> 0 \<le> r"
proof -
  assume "256 \<le> length (join (cleanPass r toClean))"
  then have "cleanPass r toClean \<noteq> []" by auto
  then show ?thesis unfolding cleanPass_def by (rule reduce_nonneg)
qed

function cleanCustomData :: "string list \<Rightarrow> int \<Rightarrow> string" where
  "cleanCustomData toClean rejectLength =
     (let toClean' = cleanPass rejectLength toClean;
          ret = join toClean'
      in if length ret \<ge> 256 then cleanCustomData toClean' (rejectLength - 10)
         else join toClean')"
  by pat_completeness auto
termination
  by (relation "measure (\<lambda>(toClean, rejectLength). nat (rejectLength + 1))")
     (auto dest: retry_budget)

declare cleanCustomData.simps [simp del]

text \<open>
  The value of \<open>toClean\<close> that is joined when \<^const>\<open>cleanCustomData\<close> returns: the
  same recursion, returning the list instead of its join
  (lemma \<open>cleanCustomData_join_entries\<close> below).
\<close>

function cleanCustomDataEntries :: "string list \<Rightarrow> int \<Rightarrow> string list" where
  "cleanCustomDataEntries toClean rejectLength =
     (let toClean' = cleanPass rejectLength toClean;
          ret = join toClean'
      in if length ret \<ge> 256 then cleanCustomDataEntries toClean' (rejectLength - 10)
         else toClean')"
  by pat_completeness auto
termination
  by (relation "measure (\<lambda>(toClean, rejectLength). nat (rejectLength + 1))")
     (auto dest: retry_budget)

declare cleanCustomDataEntries.simps [simp del]

text \<open>
  Two readings of "the longest trailing run within the budget", for comparison with
  \<^const>\<open>reduceToRejectLength\<close>: \<^const>\<open>suffixes\<close> lists the trailing runs of a list from
  the shortest to the longest, so the last one that fits is the longest. A run fits by its
  summed entry lengths (\<open>sumWithin\<close>), or by the length of its join, separators included
  (\<open>joinedWithin\<close>).
\<close>

definition sumWithin :: "int \<Rightarrow> string list \<Rightarrow> bool" where
  "sumWithin budget run = (int (length (concat run)) \<le> budget)"

definition joinedWithin :: "int \<Rightarrow> string list \<Rightarrow> bool" where
  "joinedWithin budget run = (int (length (join run)) \<le> budget)"

definition longestTrailingRun :: "('a list \<Rightarrow> bool) \<Rightarrow> 'a list \<Rightarrow> 'a list" where
  "longestTrailingRun fits xs = last ([] # filter fits (suffixes xs))"

subsection \<open>Collapsing consecutive duplicates\<close>

lemma filterConsecutive_Nil: "filterConsecutive [] = []"
  by (simp add: filterConsecutive_def)

lemma filterConsecutive_snoc:
  "filterConsecutive (xs @ [x]) =
     filterConsecutive xs @ (if xs = [] \<or> x \<noteq> last xs then [x] else [])"
proof (cases "xs = []")
  case True
  then show ?thesis by (simp add: filterConsecutive_def)
next
  case False
  let ?ys = "xs @ [x]"
  have sel: "filter (\<lambda>pos. pos = 0 \<or> ?ys ! pos \<noteq> ?ys ! (pos - 1)) [0..<length xs]
        = filter (\<lambda>pos. pos = 0 \<or> xs ! pos \<noteq> xs ! (pos - 1)) [0..<length xs]"
    by (rule filter_cong) (auto simp: nth_append)
  have rd: "map (\<lambda>pos. ?ys ! pos) (filter Q [0..<length xs])
        = map (\<lambda>pos. xs ! pos) (filter Q [0..<length xs])" for Q
    by (rule map_cong) (auto simp: nth_append)
  have lastx: "?ys ! (length xs - 1) = last xs"
    using False by (simp add: nth_append last_conv_nth)
  have len0: "length xs \<noteq> 0" using False by simp
  have "filterConsecutive ?ys =
      map (\<lambda>pos. ?ys ! pos)
        (filter (\<lambda>pos. pos = 0 \<or> ?ys ! pos \<noteq> ?ys ! (pos - 1)) ([0..<length xs] @ [length xs]))"
    by (simp add: filterConsecutive_def)
  also have "\<dots> = map (\<lambda>pos. ?ys ! pos)
        (filter (\<lambda>pos. pos = 0 \<or> xs ! pos \<noteq> xs ! (pos - 1)) [0..<length xs])
        @ (if x \<noteq> last xs then [x] else [])"
    unfolding filter_append map_append sel using len0 lastx by simp
  also have "\<dots> = filterConsecutive xs @ (if x \<noteq> last xs then [x] else [])"
    unfolding rd by (simp add: filterConsecutive_def)
  finally show ?thesis using False by simp
qed

lemma remdups_adj_snoc:
  "remdups_adj (xs @ [x]) = remdups_adj xs @ (if xs = [] \<or> x \<noteq> last xs then [x] else [])"
proof (cases xs rule: rev_cases)
  case Nil
  then show ?thesis by simp
next
  case (snoc ys y)
  then show ?thesis by (auto simp: remdups_adj_append_two)
qed

lemma filterConsecutive_remdups_adj: "filterConsecutive xs = remdups_adj xs"
  by (induction xs rule: rev_induct)
     (simp_all only: filterConsecutive_Nil remdups_adj.simps filterConsecutive_snoc remdups_adj_snoc)

lemma remdups_adj_twice: "remdups_adj (remdups_adj xs) = remdups_adj xs"
proof (induction xs rule: remdups_adj.induct)
  case (3 x y xs)
  obtain zs where zs: "remdups_adj (y # xs) = y # zs"
    using remdups_adj_Cons_alt [of y xs] by metis
  show ?case
  proof (cases "x = y")
    case True
    with 3 show ?thesis by simp
  next
    case False
    with 3 zs show ?thesis by simp
  qed
qed simp_all

lemma suffix_remdups_adj_Cons: "suffix (remdups_adj xs) (remdups_adj (x # xs))"
  by (cases xs) (auto intro: suffix_ConsI)

lemma suffix_remdups_adj: "suffix ks xs \<Longrightarrow> suffix (remdups_adj ks) (remdups_adj xs)"
proof -
  assume "suffix ks xs"
  then obtain ys where xs: "xs = ys @ ks" by (auto simp: suffix_def)
  have "suffix (remdups_adj ks) (remdups_adj (ys @ ks))"
  proof (induction ys)
    case Nil
    show ?case by simp
  next
    case (Cons y ys)
    have "suffix (remdups_adj (ys @ ks)) (remdups_adj (y # ys @ ks))"
      by (rule suffix_remdups_adj_Cons)
    with Cons show ?case by (auto intro: suffix_order.trans)
  qed
  then show ?thesis by (simp add: xs)
qed

subsection \<open>The right-to-left length scan\<close>

lemma reduce_Cons:
  "reduceToRejectLength r (x # xs) =
     (if int (length (concat (x # xs))) \<le> r then x # reduceToRejectLength r xs
      else reduceToRejectLength r xs)"
  by (simp add: reduceToRejectLength_def reduceStep_def Let_def reduce_total add.commute)

lemma reduce_Nil: "reduceToRejectLength r [] = []"
  by (simp add: reduceToRejectLength_def)

lemma reduce_all: "int (length (concat xs)) \<le> r \<Longrightarrow> reduceToRejectLength r xs = xs"
  by (induction xs) (simp_all add: reduce_Cons reduce_Nil)

lemma reduce_suffix: "suffix (reduceToRejectLength r xs) xs"
proof (induction xs)
  case Nil
  show ?case by (simp add: reduce_Nil)
next
  case (Cons x xs)
  show ?case
  proof (cases "int (length (concat (x # xs))) \<le> r")
    case True
    then show ?thesis by (simp add: reduce_all)
  next
    case False
    with Cons show ?thesis by (simp add: reduce_Cons suffix_ConsI)
  qed
qed

lemma longestTrailingRun_Nil: "longestTrailingRun fits [] = []"
  by (simp add: longestTrailingRun_def)

lemma longestTrailingRun_Cons:
  "longestTrailingRun fits (x # xs) = (if fits (x # xs) then x # xs else longestTrailingRun fits xs)"
  by (simp add: longestTrailingRun_def)

lemma longestTrailingRun_self: "fits xs \<Longrightarrow> longestTrailingRun fits xs = xs"
  by (cases xs) (simp_all add: longestTrailingRun_Nil longestTrailingRun_Cons)

lemma longestTrailingRun_longest:
  "fits [] \<Longrightarrow> suffix (longestTrailingRun fits xs) xs \<and> fits (longestTrailingRun fits xs)
     \<and> (\<forall>s. suffix s xs \<and> fits s \<longrightarrow> length s \<le> length (longestTrailingRun fits xs))"
proof (induction xs)
  case Nil
  then show ?case by (simp add: longestTrailingRun_Nil)
next
  case (Cons x xs)
  show ?case
  proof (cases "fits (x # xs)")
    case True
    then show ?thesis by (auto simp: longestTrailingRun_Cons dest: suffix_length_le)
  next
    case False
    with Cons show ?thesis by (auto simp: longestTrailingRun_Cons suffix_Cons intro: suffix_ConsI)
  qed
qed

lemma reduce_longest_sum: "reduceToRejectLength r xs = longestTrailingRun (sumWithin r) xs"
proof (induction xs)
  case Nil
  show ?case by (simp add: reduce_Nil longestTrailingRun_Nil)
next
  case (Cons x xs)
  show ?case
  proof (cases "int (length (concat (x # xs))) \<le> r")
    case True
    then have "reduceToRejectLength r (x # xs) = x # xs" by (rule reduce_all)
    moreover have "longestTrailingRun (sumWithin r) (x # xs) = x # xs"
      using True by (simp add: longestTrailingRun_Cons sumWithin_def)
    ultimately show ?thesis by simp
  next
    case False
    then show ?thesis using Cons by (simp add: reduce_Cons longestTrailingRun_Cons sumWithin_def)
  qed
qed

subsection \<open>The whole cleaning function\<close>

lemma cleanCustomData_unfold:
  "cleanCustomData toClean r =
     (if 256 \<le> length (join (cleanPass r toClean))
      then cleanCustomData (cleanPass r toClean) (r - 10)
      else join (cleanPass r toClean))"
  by (subst cleanCustomData.simps) (simp add: Let_def)

lemma cleanCustomDataEntries_unfold:
  "cleanCustomDataEntries toClean r =
     (if 256 \<le> length (join (cleanPass r toClean))
      then cleanCustomDataEntries (cleanPass r toClean) (r - 10)
      else cleanPass r toClean)"
  by (subst cleanCustomDataEntries.simps) (simp add: Let_def)

lemma cleanCustomData_join_entries:
  "cleanCustomData toClean r = join (cleanCustomDataEntries toClean r)"
proof (induction toClean r rule: cleanCustomData.induct)
  case (1 toClean r)
  show ?case
  proof (cases "256 \<le> length (join (cleanPass r toClean))")
    case True
    have "cleanCustomData toClean r = cleanCustomData (cleanPass r toClean) (r - 10)"
      using True by (subst cleanCustomData_unfold) simp
    also have "\<dots> = join (cleanCustomDataEntries (cleanPass r toClean) (r - 10))"
      using True by (intro "1.IH") simp_all
    also have "\<dots> = join (cleanCustomDataEntries toClean r)"
      using True by (subst (2) cleanCustomDataEntries_unfold) simp
    finally show ?thesis .
  next
    case False
    then show ?thesis
      by (subst cleanCustomData_unfold, subst cleanCustomDataEntries_unfold) simp
  qed
qed

lemma cleanCustomData_length: "length (cleanCustomData toClean r) < 256"
proof (induction toClean r rule: cleanCustomData.induct)
  case (1 toClean r)
  show ?case
  proof (cases "256 \<le> length (join (cleanPass r toClean))")
    case True
    have "length (cleanCustomData (cleanPass r toClean) (r - 10)) < 256"
      using True by (intro "1.IH") simp_all
    then show ?thesis using True by (subst cleanCustomData_unfold) simp
  next
    case False
    then show ?thesis by (subst cleanCustomData_unfold) simp
  qed
qed

lemma stripDelimiter_idem: "stripDelimiter (stripDelimiter s) = stripDelimiter s"
  by (simp add: stripDelimiter_def)

lemma cleanPass_suffix:
  "suffix (cleanPass r toClean) (map stripDelimiter (filterConsecutive toClean))"
  unfolding cleanPass_def by (rule reduce_suffix)

lemma cleanPass_stripped: "e \<in> set (cleanPass r toClean) \<Longrightarrow> stripDelimiter e = e"
proof -
  assume "e \<in> set (cleanPass r toClean)"
  then have "e \<in> set (map stripDelimiter (filterConsecutive toClean))"
    using cleanPass_suffix set_mono_suffix by blast
  then show ?thesis by (auto simp: stripDelimiter_idem)
qed

lemma cleaned_again:
  "map stripDelimiter (filterConsecutive (cleanPass r toClean)) = remdups_adj (cleanPass r toClean)"
proof -
  have "map stripDelimiter (remdups_adj (cleanPass r toClean)) = remdups_adj (cleanPass r toClean)"
    by (rule map_idI) (simp add: cleanPass_stripped)
  then show ?thesis by (simp add: filterConsecutive_remdups_adj)
qed

lemma cleanCustomDataEntries_trailing:
  "suffix (cleanCustomDataEntries toClean r) (map stripDelimiter (filterConsecutive toClean))
   \<or> suffix (cleanCustomDataEntries toClean r)
        (remdups_adj (map stripDelimiter (filterConsecutive toClean)))"
proof (induction toClean r rule: cleanCustomDataEntries.induct)
  case (1 toClean r)
  let ?k = "cleanPass r toClean"
  let ?L = "map stripDelimiter (filterConsecutive toClean)"
  show ?case
  proof (cases "256 \<le> length (join ?k)")
    case True
    have eq: "cleanCustomDataEntries toClean r = cleanCustomDataEntries ?k (r - 10)"
      using True by (subst cleanCustomDataEntries_unfold) simp
    have "suffix (cleanCustomDataEntries ?k (r - 10)) (map stripDelimiter (filterConsecutive ?k))
       \<or> suffix (cleanCustomDataEntries ?k (r - 10))
            (remdups_adj (map stripDelimiter (filterConsecutive ?k)))"
      using True by (intro "1.IH") simp_all
    then have "suffix (cleanCustomDataEntries ?k (r - 10)) (remdups_adj ?k)"
      by (simp add: cleaned_again remdups_adj_twice)
    moreover have "suffix (remdups_adj ?k) (remdups_adj ?L)"
      by (rule suffix_remdups_adj) (rule cleanPass_suffix)
    ultimately have "suffix (cleanCustomDataEntries ?k (r - 10)) (remdups_adj ?L)"
      by (rule suffix_order.trans)
    then show ?thesis by (simp add: eq)
  next
    case False
    then have "cleanCustomDataEntries toClean r = ?k"
      by (subst cleanCustomDataEntries_unfold) simp
    then show ?thesis by (simp add: cleanPass_suffix)
  qed
qed

lemma join_length_ge: "length (concat xs) \<le> length (join xs)"
  by (induction xs rule: join.induct) simp_all

lemma cleanCustomData_fits:
  assumes "length (join (map stripDelimiter (filterConsecutive toClean))) < 256"
  shows "cleanCustomData toClean 256 = join (map stripDelimiter (filterConsecutive toClean))"
proof -
  let ?L = "map stripDelimiter (filterConsecutive toClean)"
  have "length (concat ?L) \<le> length (join ?L)" by (rule join_length_ge)
  with assms have "int (length (concat ?L)) \<le> 256" by simp
  then have "cleanPass 256 toClean = ?L" unfolding cleanPass_def by (rule reduce_all)
  with assms show ?thesis by (subst cleanCustomData_unfold) simp
qed

subsection \<open>Claims about cleanCustomData\<close>

text \<open>
  \<^bold>\<open>C4.\<close> \<open>cleanCustomData\<close> first collapses consecutive duplicate entries (an entry is kept
  only if it differs from its immediate predecessor) and then removes every \<open>;\<close> from each
  kept entry; \<open>cleanCustomData(["a","a","b"])\<close> returns \<open>"a;b"\<close>.

  The first step is the standard collapse of adjacent duplicates, no entry of the second
  step's result holds a \<open>;\<close>, and whenever the cleaned list joins to fewer than 256
  characters the result is that join: collapse first, strip second. The order shows on
  \<open>["a;", "a"]\<close>, whose entries differ before stripping and are both kept (see the
  witness).
\<close>

theorem cleanCustomData_collapse_then_strip:
  "cleanCustomData [''a'', ''a'', ''b''] 256 = ''a;b''
   \<and> filterConsecutive toClean = remdups_adj toClean
   \<and> CHR '';'' \<notin> set (concat (map stripDelimiter (filterConsecutive toClean)))
   \<and> (length (join (map stripDelimiter (filterConsecutive toClean))) < 256 \<longrightarrow>
        cleanCustomData toClean 256 = join (map stripDelimiter (filterConsecutive toClean)))"
proof -
  have "cleanCustomData [''a'', ''a'', ''b''] 256 = ''a;b''"
    by (simp add: cleanCustomData_fits filterConsecutive_remdups_adj stripDelimiter_def)
  moreover have "CHR '';'' \<notin> set (concat (map stripDelimiter (filterConsecutive toClean)))"
    by (auto simp: stripDelimiter_def)
  ultimately show ?thesis
    using cleanCustomData_fits filterConsecutive_remdups_adj by blast
qed

theorem cleanCustomData_collapse_then_strip_witness:
  "length (join (map stripDelimiter (filterConsecutive [''a;'', ''a'', ''a'', ''b;b'']))) < 256
   \<and> cleanCustomData [''a;'', ''a'', ''a'', ''b;b''] 256 = ''a;a;bb''"
  using cleanCustomData_collapse_then_strip [of "[''a;'', ''a'', ''a'', ''b;b'']"]
  by (simp add: filterConsecutive_remdups_adj stripDelimiter_def)

text \<open>
  \<^bold>\<open>C3.\<close> After duplicate-collapsing and delimiter-stripping, the entries retained are
  exactly the longest trailing run of the list whose total joined length (the run joined
  with \<open>;\<close>) does not exceed the length budget (default 256), scanning from the end.

  As stated this fails: the scan adds up the lengths of the entries and never counts the
  separators. Two entries of 128 characters sum to 256 and are both retained by the pass
  with budget 256, but their join has 257 characters; the longest trailing run whose join
  fits is the last entry alone.
\<close>

theorem joined_budget_counterexample:
  "cleanPass 256 [replicate 128 CHR ''a'', replicate 128 CHR ''b'']
     \<noteq> longestTrailingRun (joinedWithin 256)
          (map stripDelimiter (filterConsecutive [replicate 128 CHR ''a'', replicate 128 CHR ''b'']))"
  by (simp add: cleanPass_def filterConsecutive_remdups_adj stripDelimiter_def reduce_Cons reduce_Nil
      longestTrailingRun_Cons longestTrailingRun_Nil joinedWithin_def)

text \<open>
  \<^bold>\<open>C3, amended.\<close> The entries retained by a pass are exactly the longest trailing run of
  the collapsed and stripped list whose summed entry lengths (separators not counted) do
  not exceed the budget. (The function then retries with a smaller budget when the join
  still has 256 characters or more.)
\<close>

theorem cleanPass_longest_trailing_sum:
  "cleanPass rejectLength toClean
     = longestTrailingRun (sumWithin rejectLength) (map stripDelimiter (filterConsecutive toClean))
   \<and> (0 \<le> rejectLength \<longrightarrow>
        suffix (cleanPass rejectLength toClean) (map stripDelimiter (filterConsecutive toClean))
      \<and> sumWithin rejectLength (cleanPass rejectLength toClean)
      \<and> (\<forall>run. suffix run (map stripDelimiter (filterConsecutive toClean)) \<and> sumWithin rejectLength run
            \<longrightarrow> length run \<le> length (cleanPass rejectLength toClean)))"
proof -
  let ?L = "map stripDelimiter (filterConsecutive toClean)"
  have eq: "cleanPass rejectLength toClean = longestTrailingRun (sumWithin rejectLength) ?L"
    by (simp add: cleanPass_def reduce_longest_sum)
  have "sumWithin rejectLength []" if "0 \<le> rejectLength"
    using that by (simp add: sumWithin_def)
  then show ?thesis
    unfolding eq using longestTrailingRun_longest [of "sumWithin rejectLength" ?L] by blast
qed

theorem cleanPass_longest_trailing_sum_witness:
  "(0::int) \<le> 256
   \<and> cleanPass 256 [replicate 200 CHR ''a'', replicate 128 CHR ''b'', replicate 128 CHR ''c'']
       = [replicate 128 CHR ''b'', replicate 128 CHR ''c'']
   \<and> sumWithin 256 [replicate 128 CHR ''b'', replicate 128 CHR ''c'']
   \<and> \<not> joinedWithin 256 [replicate 128 CHR ''b'', replicate 128 CHR ''c'']"
  using cleanPass_longest_trailing_sum [of 256 "[replicate 200 CHR ''a'', replicate 128 CHR ''b'', replicate 128 CHR ''c'']"]
  by (simp add: filterConsecutive_remdups_adj stripDelimiter_def longestTrailingRun_Cons longestTrailingRun_Nil sumWithin_def joinedWithin_def)

text \<open>
  \<^bold>\<open>C2.\<close> For every input list whose joined length exceeds 256 characters,
  \<open>cleanCustomData\<close> returns a semicolon-joined string of length strictly less than 256,
  and the entries kept are the most recent (trailing) ones in preference to the oldest.

  The result is the join of \<^const>\<open>cleanCustomDataEntries\<close>, and those entries are a
  trailing run of the collapsed and stripped input (when the function retried, of that list
  with its adjacent duplicates collapsed once more, since every pass collapses again):
  whenever an entry is kept, every later entry is kept too.
\<close>

theorem cleanCustomData_under_limit:
  assumes "256 < length (join toClean)"
  shows "length (cleanCustomData toClean 256) < 256
       \<and> cleanCustomData toClean 256 = join (cleanCustomDataEntries toClean 256)
       \<and> (suffix (cleanCustomDataEntries toClean 256) (map stripDelimiter (filterConsecutive toClean))
          \<or> suffix (cleanCustomDataEntries toClean 256)
               (remdups_adj (map stripDelimiter (filterConsecutive toClean))))"
  using cleanCustomData_length cleanCustomData_join_entries cleanCustomDataEntries_trailing
  by blast

theorem cleanCustomData_under_limit_witness:
  "256 < length (join [replicate 200 CHR ''a'', replicate 100 CHR ''b''])
   \<and> length (cleanCustomData [replicate 200 CHR ''a'', replicate 100 CHR ''b''] 256) < 256
   \<and> cleanCustomData [replicate 200 CHR ''a'', replicate 100 CHR ''b''] 256 = replicate 100 CHR ''b''
   \<and> cleanCustomDataEntries [replicate 200 CHR ''a'', replicate 100 CHR ''b''] 256 = [replicate 100 CHR ''b'']
   \<and> suffix [replicate 100 CHR ''b''] (map stripDelimiter (filterConsecutive [replicate 200 CHR ''a'', replicate 100 CHR ''b'']))"
proof -
  have h: "256 < length (join [replicate 200 CHR ''a'', replicate 100 CHR ''b''])" by simp
  have e: "cleanCustomDataEntries [replicate 200 CHR ''a'', replicate 100 CHR ''b''] 256 = [replicate 100 CHR ''b'']"
    by (simp add: cleanCustomDataEntries_unfold cleanPass_def filterConsecutive_remdups_adj stripDelimiter_def reduce_Cons reduce_Nil)
  show ?thesis
    using h e cleanCustomData_under_limit [OF h]
    by (simp add: filterConsecutive_remdups_adj stripDelimiter_def suffix_def)
qed

section \<open>AnalyticsSuggestions: the widget\<close>

subsection \<open>JavaScript values the widget inspects\<close>

text \<open>
  \<^verbatim>\<open>selectSuggestion(suggestion: any)\<close> is declared for a number and for a string. A
  number is \<open>NaN\<close>, an infinity or a finite value (every finite double is a rational).
\<close>

datatype js_number = NaN | PositiveInfinity | NegativeInfinity | Finite rat

datatype suggestion_id = ByNumber js_number | ByString string

text \<open>
  \<^verbatim>\<open>isNaN(suggestion)\<close> converts its argument to a number first. For a string this is
  ECMAScript's \<open>StringToNumber\<close>: white space is trimmed; the empty string is 0; otherwise
  the string must be a \<open>StrDecimalLiteral\<close> (optional sign, \<open>Infinity\<close> or digits with an
  optional fraction and exponent) or an unsigned hexadecimal, octal or binary integer
  literal; anything else is \<open>NaN\<close>. The recogniser below follows that grammar over the
  code units a \<^typ>\<open>char\<close> can hold.
\<close>

definition isStrWhiteSpaceChar :: "char \<Rightarrow> bool" where
  "isStrWhiteSpaceChar c =
     (c \<in> set [CHR 0x09, CHR 0x0A, CHR 0x0B, CHR 0x0C, CHR 0x0D, CHR 0x20, CHR 0xA0])"

definition trimString :: "string \<Rightarrow> string" where
  "trimString s = rev (dropWhile isStrWhiteSpaceChar (rev (dropWhile isStrWhiteSpaceChar s)))"

definition isDecimalDigit :: "char \<Rightarrow> bool" where
  "isDecimalDigit c = (c \<in> set ''0123456789'')"

definition isHexDigit :: "char \<Rightarrow> bool" where
  "isHexDigit c = (c \<in> set ''0123456789abcdefABCDEF'')"

definition isOctalDigit :: "char \<Rightarrow> bool" where
  "isOctalDigit c = (c \<in> set ''01234567'')"

definition isBinaryDigit :: "char \<Rightarrow> bool" where
  "isBinaryDigit c = (c \<in> set ''01'')"

definition isDecimalDigits :: "string \<Rightarrow> bool" where
  "isDecimalDigits s = (s \<noteq> [] \<and> list_all isDecimalDigit s)"

definition isExponentPartOpt :: "string \<Rightarrow> bool" where
  "isExponentPartOpt s =
     (case s of
        [] \<Rightarrow> True
      | e # r \<Rightarrow> (e = CHR ''e'' \<or> e = CHR ''E'') \<and>
          (case r of
             [] \<Rightarrow> False
           | sign # ds \<Rightarrow> if sign = CHR ''+'' \<or> sign = CHR ''-'' then isDecimalDigits ds
                         else isDecimalDigits r))"

definition isStrUnsignedDecimalLiteral :: "string \<Rightarrow> bool" where
  "isStrUnsignedDecimalLiteral s =
     (s = ''Infinity'' \<or>
      (let intPart = takeWhile isDecimalDigit s; afterInt = dropWhile isDecimalDigit s
       in case afterInt of
            [] \<Rightarrow> intPart \<noteq> []
          | c # r \<Rightarrow>
              if c = CHR ''.''
              then (let fracPart = takeWhile isDecimalDigit r; afterFrac = dropWhile isDecimalDigit r
                    in (intPart \<noteq> [] \<or> fracPart \<noteq> []) \<and> isExponentPartOpt afterFrac)
              else intPart \<noteq> [] \<and> isExponentPartOpt afterInt))"

definition isStrDecimalLiteral :: "string \<Rightarrow> bool" where
  "isStrDecimalLiteral s =
     (case s of
        [] \<Rightarrow> False
      | c # r \<Rightarrow> if c = CHR ''+'' \<or> c = CHR ''-'' then isStrUnsignedDecimalLiteral r
                 else isStrUnsignedDecimalLiteral s)"

definition isNonDecimalIntegerLiteral :: "string \<Rightarrow> bool" where
  "isNonDecimalIntegerLiteral s =
     (case s of
        z # x # ds \<Rightarrow> z = CHR ''0'' \<and> ds \<noteq> [] \<and>
          ((x = CHR ''x'' \<or> x = CHR ''X'') \<and> list_all isHexDigit ds
           \<or> (x = CHR ''o'' \<or> x = CHR ''O'') \<and> list_all isOctalDigit ds
           \<or> (x = CHR ''b'' \<or> x = CHR ''B'') \<and> list_all isBinaryDigit ds)
      | _ \<Rightarrow> False)"

definition isStringNumericLiteral :: "string \<Rightarrow> bool" where
  "isStringNumericLiteral s =
     (let t = trimString s
      in t = [] \<or> isStrDecimalLiteral t \<or> isNonDecimalIntegerLiteral t)"

fun isNaN :: "suggestion_id \<Rightarrow> bool" where
  "isNaN (ByNumber n) = (n = NaN)"
| "isNaN (ByString s) = (\<not> isStringNumericLiteral s)"

text \<open>
  The property key that \<^verbatim>\<open>this.currentlyDisplayedSuggestions[suggestion]\<close> looks up. The
  source reads the property only when \<^const>\<open>isNaN\<close> holds, where a number can only be
  \<open>NaN\<close>, whose key is \<open>"NaN"\<close>; the key of a finite number is never needed and is left
  out.
\<close>

fun propertyKey :: "suggestion_id \<Rightarrow> string option" where
  "propertyKey (ByString s) = Some s"
| "propertyKey (ByNumber NaN) = Some ''NaN''"
| "propertyKey (ByNumber PositiveInfinity) = Some ''Infinity''"
| "propertyKey (ByNumber NegativeInfinity) = Some ''-Infinity''"
| "propertyKey (ByNumber (Finite q)) = None"

text \<open>
  \<^verbatim>\<open>_.findWhere(..., {pos: suggestion})\<close> compares with \<^verbatim>\<open>===\<close>: the stored \<open>pos\<close> is an
  array index, which a string never equals and a number equals only by value.
\<close>

fun strictEquals :: "suggestion_id \<Rightarrow> nat \<Rightarrow> bool" where
  "strictEquals (ByNumber (Finite q)) pos = (q = of_nat pos)"
| "strictEquals (ByNumber n) pos = False"
| "strictEquals (ByString s) pos = False"

text \<open>\<^verbatim>\<open>_.indexOf(array, item)\<close>: the first index holding \<open>item\<close>, or \<open>-1\<close>.\<close>

fun indexOfFrom :: "nat \<Rightarrow> 'a list \<Rightarrow> 'a \<Rightarrow> int" where
  "indexOfFrom i [] item = -1"
| "indexOfFrom i (x # xs) item = (if x = item then int i else indexOfFrom (Suc i) xs item)"

definition indexOf :: "'a list \<Rightarrow> 'a \<Rightarrow> int" where
  "indexOf array item = indexOfFrom 0 array item"

subsection \<open>Widget state, DOM and host\<close>

text \<open>
  What the widget observes of a DOM element: its identity, its text
  (\<^verbatim>\<open>$$(selectable).text()\<close>) and the selectable rows found below it
  (\<^verbatim>\<open>$$(element).findAll('.coveo-omnibox-selectable')\<close>).
\<close>

datatype html_element =
  HTMLElement (nodeId: nat) (innerText: string) (selectables: "html_element list")

text \<open>The render model \<^verbatim>\<open>{value: result}\<close> and an entry \<^verbatim>\<open>{element, pos}\<close> of the index.\<close>

datatype suggestion_result = SuggestionResult (resultValue: string)

record displayed_suggestion =
  element :: html_element
  pos :: nat

text \<open>
  \<open>currentlyDisplayedSuggestions\<close> is a plain object (created by \<^verbatim>\<open>{}\<close>) used as a dictionary
  from rendered label to entry. A plain object has its own properties and a prototype. The
  own properties are an association list in insertion order with one pair per key
  (\<^const>\<open>AList.update\<close> overwrites in place, as an assignment to an existing property does).
  The prototype is \<^verbatim>\<open>Object.prototype\<close> at creation; the one way the source can change it
  is an assignment to the key \<^verbatim>\<open>__proto__\<close>, which runs the setter inherited from
  \<^verbatim>\<open>Object.prototype\<close>: the assigned entry becomes the prototype and no own property is
  added.
\<close>

datatype object_prototype = ObjectPrototype | EntryPrototype displayed_suggestion

record displayed_suggestions =
  ownProperties :: "(string \<times> displayed_suggestion) list"
  prototypeOf :: object_prototype

definition emptyObject :: displayed_suggestions where
  "emptyObject = \<lparr>ownProperties = [], prototypeOf = ObjectPrototype\<rparr>"

definition setProperty ::
    "string \<Rightarrow> displayed_suggestion \<Rightarrow> displayed_suggestions \<Rightarrow> displayed_suggestions" where
  "setProperty key entry obj =
     (if key = ''__proto__'' then obj\<lparr>prototypeOf := EntryPrototype entry\<rparr>
      else obj\<lparr>ownProperties := AList.update key entry (ownProperties obj)\<rparr>)"

text \<open>
  What reading a property of the index can yield: nothing (\<^verbatim>\<open>undefined\<close>), an entry, or
  an inherited member. The functions of \<^verbatim>\<open>Object.prototype\<close> are inherited under the
  names ECMAScript gives them; \<^verbatim>\<open>__proto__\<close> reads the prototype itself; and when an
  entry has become the prototype, its two properties \<open>element\<close> and \<open>pos\<close> are inherited
  too, before those of \<^verbatim>\<open>Object.prototype\<close>.
\<close>

datatype property_value =
    Absent
  | EntryValue displayed_suggestion
  | ElementValue html_element
  | NumberValue nat
  | ObjectPrototypeValue
  | FunctionValue string

definition objectPrototypeFunctions :: "string list" where
  "objectPrototypeFunctions =
     [''constructor'', ''hasOwnProperty'', ''isPrototypeOf'', ''propertyIsEnumerable'',
      ''toLocaleString'', ''toString'', ''valueOf'', ''__defineGetter__'', ''__defineSetter__'',
      ''__lookupGetter__'', ''__lookupSetter__'']"

definition getInherited :: "object_prototype \<Rightarrow> string \<Rightarrow> property_value" where
  "getInherited proto key =
     (if key = ''__proto__''
      then (case proto of
              ObjectPrototype \<Rightarrow> ObjectPrototypeValue
            | EntryPrototype entry \<Rightarrow> EntryValue entry)
      else (case proto of
              ObjectPrototype \<Rightarrow>
                if key \<in> set objectPrototypeFunctions then FunctionValue key else Absent
            | EntryPrototype entry \<Rightarrow>
                if key = ''element'' then ElementValue (element entry)
                else if key = ''pos'' then NumberValue (pos entry)
                else if key \<in> set objectPrototypeFunctions then FunctionValue key else Absent))"

definition getProperty :: "displayed_suggestions \<Rightarrow> string \<Rightarrow> property_value" where
  "getProperty obj key =
     (case map_of (ownProperties obj) key of
        Some entry \<Rightarrow> EntryValue entry
      | None \<Rightarrow> getInherited (prototypeOf obj) key)"

text \<open>
  JavaScript truthiness of such a value (only \<^verbatim>\<open>undefined\<close> and the number 0 are falsy
  here), and its property \<open>element\<close>, which only an entry has.
\<close>

fun isTruthy :: "property_value \<Rightarrow> bool" where
  "isTruthy Absent = False"
| "isTruthy (NumberValue n) = (n \<noteq> 0)"
| "isTruthy v = True"

fun elementOf :: "property_value \<Rightarrow> html_element option" where
  "elementOf (EntryValue entry) = Some (element entry)"
| "elementOf v = None"

text \<open>The private fields of the component (lines 34 to 37) and the options it reads.\<close>

record widget =
  partialQueries :: "string list"
  lastSuggestions :: "string list"
  resultsToBuildWith :: "suggestion_result list"
  currentlyDisplayedSuggestions :: "displayed_suggestions option"

record widget_options =
  omniboxZIndex :: nat
  numberOfSuggestions :: nat

text \<open>
  The value pushed for the host: \<^verbatim>\<open>{element, zIndex}\<close>, with \<open>None\<close> for
  \<^verbatim>\<open>undefined\<close>. A promise is pending, resolved or rejected; a settlement is how the
  top-queries promise ended.
\<close>

record omnibox_row =
  rowElement :: "html_element option"
  zIndex :: "nat option"

datatype rejection = ErrorResponse nat string

datatype 'a settlement = Fulfilled 'a | RejectedWith rejection

datatype 'a promise = Pending | Resolved 'a | Rejected rejection

text \<open>
  \<^verbatim>\<open>IPopulateOmniboxEventArgs\<close>: the typed word
  (\<^verbatim>\<open>args.completeQueryExpression.word\<close>) and the rows
  (\<^verbatim>\<open>args.rows\<close>, each \<^verbatim>\<open>{deferred: promise}\<close>).
\<close>

record populate_args =
  word :: string
  rows :: "omnibox_row promise list"

text \<open>
  The calls the component makes on its collaborators, recorded in order: the top-queries
  query with its page size and text, \<^verbatim>\<open>args.clear()\<close>, \<^verbatim>\<open>args.closeOmnibox()\<close>,
  \<^verbatim>\<open>queryStateModel.set\<close>, \<^verbatim>\<open>usageAnalytics.logSearchEvent\<close> with its meta data and
  \<^verbatim>\<open>queryController.executeQuery()\<close>.
\<close>

record top_suggestion_meta =
  metaPartialQueries :: string
  suggestionRanking :: int
  suggestions :: string
  partialQuery :: string

datatype query_attribute = AttributeQ

datatype action_cause = OmniboxAnalytics

datatype effect =
    GetTopQueries nat string
  | Clear
  | CloseOmnibox
  | QueryStateModelSet query_attribute string
  | LogSearchEvent action_cause top_suggestion_meta
  | ExecuteQuery

record page =
  component :: widget
  effects :: "effect list"

text \<open>
  What the modelled code can throw: a failed \<^verbatim>\<open>Assert.exists\<close>, the \<^verbatim>\<open>TypeError\<close> of
  reading a property of \<^verbatim>\<open>undefined\<close>, and the failure of \<^verbatim>\<open>$$(undefined).trigger('click')\<close>.
  \<^verbatim>\<open>$$\<close> and \<^verbatim>\<open>trigger\<close> belong to \<^verbatim>\<open>utils/Dom\<close>, which is not among the sources; an event
  cannot be dispatched on \<^verbatim>\<open>undefined\<close>, whether the wrapper refuses it or the dispatch
  fails, and the model does not tell the two apart.
\<close>

datatype js_error = AssertionFailed | TypeError | UndefinedElement

definition initialWidget :: widget where
  "initialWidget = \<lparr>partialQueries = [], lastSuggestions = [], resultsToBuildWith = [],
     currentlyDisplayedSuggestions = None\<rparr>"

definition initialPage :: page where
  "initialPage = \<lparr>component = initialWidget, effects = []\<rparr>"

subsection \<open>selectSuggestion\<close>

text \<open>
  Lines 72 to 85. \<open>selectSuggestionTarget\<close> is what the source hands to
  \<^verbatim>\<open>$$(...).trigger('click')\<close>: no call at all (\<open>Inr None\<close>), a call on an element, or a
  call on \<^verbatim>\<open>undefined\<close>, which throws. The lookup by label is the property read
  \<^verbatim>\<open>this.currentlyDisplayedSuggestions[suggestion]\<close>, inherited members included, tested
  for truthiness; \<^verbatim>\<open>_.findWhere\<close> enumerates the own properties only. What a click
  then does is the business of the listeners bound to the row by
  \<^verbatim>\<open>SuggestionForOmnibox\<close>; \<open>selectSuggestion\<close> takes them as the parameter
  \<open>triggerClick\<close>.
\<close>

definition findWherePos :: "displayed_suggestions \<Rightarrow> suggestion_id \<Rightarrow> displayed_suggestion option" where
  "findWherePos displayed suggestion =
     List.find (\<lambda>entry. strictEquals suggestion (pos entry)) (map snd (ownProperties displayed))"

definition selectSuggestionTarget :: "widget \<Rightarrow> suggestion_id \<Rightarrow> js_error + html_element option" where
  "selectSuggestionTarget w suggestion =
     (case currentlyDisplayedSuggestions w of
        None \<Rightarrow> Inr None
      | Some displayed \<Rightarrow>
          if isNaN suggestion
          then (case propertyKey suggestion of
                  None \<Rightarrow> Inr None
                | Some key \<Rightarrow>
                    if isTruthy (getProperty displayed key)
                    then (case elementOf (getProperty displayed key) of
                            None \<Rightarrow> Inl UndefinedElement
                          | Some el \<Rightarrow> Inr (Some el))
                    else Inr None)
          else (case findWherePos displayed suggestion of
                  None \<Rightarrow> Inr None
                | Some currentlySuggested \<Rightarrow> Inr (Some (element currentlySuggested))))"

definition selectSuggestion ::
    "(html_element \<Rightarrow> page \<Rightarrow> page) \<Rightarrow> suggestion_id \<Rightarrow> page \<Rightarrow> js_error + page" where
  "selectSuggestion triggerClick suggestion p =
     (case selectSuggestionTarget (component p) suggestion of
        Inl failure \<Rightarrow> Inl failure
      | Inr None \<Rightarrow> Inr p
      | Inr (Some el) \<Rightarrow> Inr (triggerClick el p))"

subsection \<open>handlePopulateOmnibox\<close>

text \<open>
  Lines 107 to 113: the index starts as an empty object and every selectable row, with its
  index \<open>i\<close>, is assigned under its text; a later row with the same text overwrites an
  earlier one.
\<close>

definition indexSelectables :: "html_element list \<Rightarrow> displayed_suggestions" where
  "indexSelectables found =
     foldl (\<lambda>displayed (i, selectable).
              setProperty (innerText selectable) \<lparr>element = selectable, pos = i\<rparr> displayed)
       emptyObject (enumerate 0 found)"

text \<open>
  The \<^verbatim>\<open>then\<close> callback (lines 96 to 118). \<open>buildOmniboxElement\<close> belongs to
  \<^verbatim>\<open>SuggestionForOmnibox\<close> and is a parameter.
\<close>

definition onTopQueries ::
    "widget_options \<Rightarrow> (suggestion_result list \<Rightarrow> populate_args \<Rightarrow> html_element)
      \<Rightarrow> populate_args \<Rightarrow> string list \<Rightarrow> widget \<Rightarrow> widget \<times> omnibox_row" where
  "onTopQueries options buildOmniboxElement args results w =
     (let toBuildWith = map SuggestionResult results;
          w1 = w\<lparr>resultsToBuildWith := toBuildWith, lastSuggestions := results\<rparr>;
          w2 = (if toBuildWith \<noteq> [] \<and> word args \<noteq> []
                then w1\<lparr>partialQueries := partialQueries w1 @ [word args]\<rparr> else w1);
          built = buildOmniboxElement toBuildWith args;
          w3 = w2\<lparr>currentlyDisplayedSuggestions := Some (indexSelectables (selectables built))\<rparr>
      in (w3, \<lparr>rowElement = Some built, zIndex = Some (omniboxZIndex options)\<rparr>))"

text \<open>
  Lines 87 to 127, as a function of how the top-queries promise settles: the result holds
  the request with the pushed promise in its final state, and the page. \<^verbatim>\<open>Assert.exists\<close>
  fails on a missing request.
\<close>

definition handlePopulateOmnibox ::
    "widget_options \<Rightarrow> (suggestion_result list \<Rightarrow> populate_args \<Rightarrow> html_element)
      \<Rightarrow> populate_args option \<Rightarrow> string list settlement \<Rightarrow> page
      \<Rightarrow> js_error + populate_args \<times> page" where
  "handlePopulateOmnibox options buildOmniboxElement request searchPromise p =
     (case request of
        None \<Rightarrow> Inl AssertionFailed
      | Some args \<Rightarrow>
          (let asked = p\<lparr>effects := effects p @ [GetTopQueries (numberOfSuggestions options) (word args)]\<rparr>
           in case searchPromise of
                Fulfilled results \<Rightarrow>
                  (let (w', row) = onTopQueries options buildOmniboxElement args results (component asked)
                   in Inr (args\<lparr>rows := rows args @ [Resolved row]\<rparr>, asked\<lparr>component := w'\<rparr>))
              | RejectedWith reason \<Rightarrow>
                  Inr (args\<lparr>rows := rows args @ [Resolved \<lparr>rowElement = None, zIndex = None\<rparr>]\<rparr>,
                       asked)))"

text \<open>The handler bound to \<^verbatim>\<open>QueryEvents.querySuccess\<close> (line 67).\<close>

definition onQuerySuccess :: "page \<Rightarrow> page" where
  "onQuerySuccess p = p\<lparr>component := (component p)\<lparr>partialQueries := []\<rparr>\<rparr>"

subsection \<open>onRowSelection\<close>

text \<open>Lines 129 to 140; \<open>topSuggestionMeta\<close> is the object passed to \<^verbatim>\<open>logSearchEvent\<close>.\<close>

definition topSuggestionMeta :: "widget \<Rightarrow> string \<Rightarrow> populate_args \<Rightarrow> top_suggestion_meta" where
  "topSuggestionMeta w chosen args =
     \<lparr>metaPartialQueries = cleanCustomData (partialQueries w) 256,
      suggestionRanking = indexOf (map resultValue (resultsToBuildWith w)) chosen,
      suggestions = cleanCustomData (lastSuggestions w) 256,
      partialQuery = word args\<rparr>"

definition onRowSelection :: "string \<Rightarrow> populate_args \<Rightarrow> page \<Rightarrow> page" where
  "onRowSelection chosen args p =
     p\<lparr>effects := effects p @
        [Clear, CloseOmnibox, QueryStateModelSet AttributeQ chosen,
         LogSearchEvent OmniboxAnalytics (topSuggestionMeta (component p) chosen args),
         ExecuteQuery]\<rparr>"

subsection \<open>Histories of widget events\<close>

text \<open>
  The events that reach the component, run from the state the constructor leaves;
  \<open>lastFetched\<close> is the suggestion list of the most recent populate request whose
  query was fulfilled (empty before the first).
\<close>

datatype widget_event =
    PopulateOmnibox populate_args "string list settlement"
  | QuerySuccess
  | RowSelection string populate_args

fun widgetStep ::
    "widget_options \<Rightarrow> (suggestion_result list \<Rightarrow> populate_args \<Rightarrow> html_element)
      \<Rightarrow> page \<Rightarrow> widget_event \<Rightarrow> page" where
  "widgetStep options buildOmniboxElement p (PopulateOmnibox args searchPromise) =
     (case handlePopulateOmnibox options buildOmniboxElement (Some args) searchPromise p of
        Inl failure \<Rightarrow> p
      | Inr (args', p') \<Rightarrow> p')"
| "widgetStep options buildOmniboxElement p QuerySuccess = onQuerySuccess p"
| "widgetStep options buildOmniboxElement p (RowSelection chosen args) = onRowSelection chosen args p"

definition runWidget ::
    "widget_options \<Rightarrow> (suggestion_result list \<Rightarrow> populate_args \<Rightarrow> html_element)
      \<Rightarrow> widget_event list \<Rightarrow> page" where
  "runWidget options buildOmniboxElement events =
     foldl (widgetStep options buildOmniboxElement) initialPage events"

fun fetched :: "string list \<Rightarrow> widget_event \<Rightarrow> string list" where
  "fetched previous (PopulateOmnibox args (Fulfilled results)) = results"
| "fetched previous ev = previous"

definition lastFetched :: "widget_event list \<Rightarrow> string list" where
  "lastFetched events = foldl fetched [] events"

text \<open>
  When an identifier matches one of the rendered rows: by label, when it is a string equal
  to the text of a row; by position, when it is a number equal to the index of a row.
\<close>

definition matchesByLabel :: "html_element list \<Rightarrow> suggestion_id \<Rightarrow> bool" where
  "matchesByLabel found suggestion =
     (case suggestion of
        ByString s \<Rightarrow> s \<in> set (map innerText found)
      | ByNumber n \<Rightarrow> False)"

definition matchesByPosition :: "html_element list \<Rightarrow> suggestion_id \<Rightarrow> bool" where
  "matchesByPosition found suggestion =
     (case suggestion of
        ByNumber n \<Rightarrow> n \<in> set (map (\<lambda>i. Finite (of_nat i)) [0..<length found])
      | ByString s \<Rightarrow> False)"

text \<open>
  The names under which a read of the index can find an inherited member: those of
  \<^verbatim>\<open>Object.prototype\<close> and, once an entry has become the prototype, its two properties.
\<close>

definition inheritedNames :: "string list" where
  "inheritedNames = ''__proto__'' # ''element'' # ''pos'' # objectPrototypeFunctions"

text \<open>
  Fixtures for the examples: the default options of the component, a renderer with one
  selectable row per result whose text is the result's value, a request, and the page
  after one fulfilled populate request.
\<close>

definition defaultOptions :: widget_options where
  "defaultOptions = \<lparr>omniboxZIndex = 52, numberOfSuggestions = 5\<rparr>"

definition rowPerResult :: "suggestion_result list \<Rightarrow> populate_args \<Rightarrow> html_element" where
  "rowPerResult results args =
     HTMLElement 0 []
       (map (\<lambda>(i, result). HTMLElement (Suc i) (resultValue result) []) (enumerate 0 results))"

definition request :: "string \<Rightarrow> populate_args" where
  "request typed = \<lparr>word = typed, rows = []\<rparr>"

definition displaying :: "string list \<Rightarrow> page" where
  "displaying results =
     runWidget defaultOptions rowPerResult [PopulateOmnibox (request ''f'') (Fulfilled results)]"

subsection \<open>Properties of the suggestion index\<close>

lemma indexSelectables_Nil: "indexSelectables [] = emptyObject"
  by (simp add: indexSelectables_def)

lemma indexSelectables_snoc:
  "indexSelectables (found @ [s]) =
     setProperty (innerText s) \<lparr>element = s, pos = length found\<rparr> (indexSelectables found)"
  by (simp add: indexSelectables_def enumerate_append_eq)

lemma indexSelectables_distinct: "distinct (map fst (ownProperties (indexSelectables found)))"
  by (induction found rule: rev_induct)
     (simp_all add: indexSelectables_Nil indexSelectables_snoc emptyObject_def setProperty_def
        distinct_update)

text \<open>
  The own property stored under a label is the last row with that label; a row labelled
  \<^verbatim>\<open>__proto__\<close> leaves no own property.
\<close>

lemma indexSelectables_lookup:
  "map_of (ownProperties (indexSelectables found)) label = Some entry \<longleftrightarrow>
     label \<noteq> ''__proto__''
     \<and> pos entry < length found \<and> element entry = found ! pos entry
     \<and> innerText (found ! pos entry) = label
     \<and> (\<forall>j. pos entry < j \<and> j < length found \<longrightarrow> innerText (found ! j) \<noteq> label)"
proof (induction found rule: rev_induct)
  case Nil
  show ?case by (simp add: indexSelectables_Nil emptyObject_def)
next
  case (snoc s found)
  show ?case
  proof (cases "label = ''__proto__''")
    case True
    have "map_of (ownProperties (indexSelectables (found @ [s]))) label
        = map_of (ownProperties (indexSelectables found)) label"
      using True by (simp add: indexSelectables_snoc setProperty_def update_conv')
    with snoc.IH True show ?thesis by simp
  next
    case plain: False
    show ?thesis
    proof (cases "label = innerText s")
      case True
      have "map_of (ownProperties (indexSelectables (found @ [s]))) label = Some entry
          \<longleftrightarrow> entry = \<lparr>element = s, pos = length found\<rparr>"
        using True plain by (auto simp: indexSelectables_snoc setProperty_def update_conv')
      also have "\<dots> \<longleftrightarrow> pos entry = length found \<and> element entry = s"
        by auto
      also have "\<dots> \<longleftrightarrow> label \<noteq> ''__proto__'' \<and> pos entry < length (found @ [s])
          \<and> element entry = (found @ [s]) ! pos entry
          \<and> innerText ((found @ [s]) ! pos entry) = label
          \<and> (\<forall>j. pos entry < j \<and> j < length (found @ [s]) \<longrightarrow> innerText ((found @ [s]) ! j) \<noteq> label)"
      proof (cases "pos entry = length found")
        case eq: True
        then show ?thesis using True plain by auto
      next
        case False
        have "\<not> (\<forall>j. pos entry < j \<and> j < length (found @ [s]) \<longrightarrow> innerText ((found @ [s]) ! j) \<noteq> label)"
          if "pos entry < length (found @ [s])"
        proof -
          from that False have "pos entry < length found" by simp
          then have "pos entry < length found \<and> length found < length (found @ [s])
              \<and> innerText ((found @ [s]) ! length found) = label"
            using True by simp
          then show ?thesis by blast
        qed
        with False show ?thesis by blast
      qed
      finally show ?thesis .
    next
      case False
      have "map_of (ownProperties (indexSelectables (found @ [s]))) label = Some entry
          \<longleftrightarrow> map_of (ownProperties (indexSelectables found)) label = Some entry"
        using False by (simp add: indexSelectables_snoc setProperty_def update_conv')
      also have "\<dots> \<longleftrightarrow> label \<noteq> ''__proto__''
          \<and> pos entry < length found \<and> element entry = found ! pos entry
          \<and> innerText (found ! pos entry) = label
          \<and> (\<forall>j. pos entry < j \<and> j < length found \<longrightarrow> innerText (found ! j) \<noteq> label)"
        by (rule snoc.IH)
      also have "\<dots> \<longleftrightarrow> label \<noteq> ''__proto__'' \<and> pos entry < length (found @ [s])
          \<and> element entry = (found @ [s]) ! pos entry
          \<and> innerText ((found @ [s]) ! pos entry) = label
          \<and> (\<forall>j. pos entry < j \<and> j < length (found @ [s]) \<longrightarrow> innerText ((found @ [s]) ! j) \<noteq> label)"
        using False by (auto simp: nth_append less_Suc_eq)
      finally show ?thesis .
    qed
  qed
qed

lemma indexSelectables_entry:
  "entry \<in> set (map snd (ownProperties (indexSelectables found))) \<longleftrightarrow>
     pos entry < length found \<and> element entry = found ! pos entry
     \<and> innerText (found ! pos entry) \<noteq> ''__proto__''
     \<and> (\<forall>j. pos entry < j \<and> j < length found
            \<longrightarrow> innerText (found ! j) \<noteq> innerText (found ! pos entry))"
proof -
  have "entry \<in> set (map snd (ownProperties (indexSelectables found)))
      \<longleftrightarrow> (\<exists>label. (label, entry) \<in> set (ownProperties (indexSelectables found)))"
    by force
  also have "\<dots> \<longleftrightarrow> (\<exists>label. map_of (ownProperties (indexSelectables found)) label = Some entry)"
    by (simp add: indexSelectables_distinct)
  also have "\<dots> \<longleftrightarrow> pos entry < length found \<and> element entry = found ! pos entry
     \<and> innerText (found ! pos entry) \<noteq> ''__proto__''
     \<and> (\<forall>j. pos entry < j \<and> j < length found
            \<longrightarrow> innerText (found ! j) \<noteq> innerText (found ! pos entry))"
    unfolding indexSelectables_lookup by auto
  finally show ?thesis .
qed

lemma indexSelectables_own_label:
  assumes "map_of (ownProperties (indexSelectables found)) label = Some entry"
  shows "label \<in> set (map innerText found)"
proof -
  from assms have "pos entry < length found" and "innerText (found ! pos entry) = label"
    unfolding indexSelectables_lookup by simp_all
  then show ?thesis by (metis length_map nth_map nth_mem)
qed

text \<open>
  The positions stored in the own properties are pairwise distinct, so at most one entry
  has a given position and the order in which \<^verbatim>\<open>_.findWhere\<close> enumerates the own
  properties is immaterial.
\<close>

lemma findWherePos_position:
  "findWherePos (indexSelectables found) (ByNumber (Finite (of_nat i))) =
     (if i < length found \<and> innerText (found ! i) \<noteq> ''__proto__''
         \<and> (\<forall>j. i < j \<and> j < length found
            \<longrightarrow> innerText (found ! j) \<noteq> innerText (found ! i))
      then Some \<lparr>element = found ! i, pos = i\<rparr> else None)"
proof (cases "i < length found \<and> innerText (found ! i) \<noteq> ''__proto__''
         \<and> (\<forall>j. i < j \<and> j < length found
            \<longrightarrow> innerText (found ! j) \<noteq> innerText (found ! i))")
  case True
  let ?e = "\<lparr>element = found ! i, pos = i\<rparr>"
  let ?P = "\<lambda>entry. strictEquals (ByNumber (Finite (of_nat i))) (pos entry)"
  have inside: "?e \<in> set (map snd (ownProperties (indexSelectables found)))"
    unfolding indexSelectables_entry using True by simp
  have "?P ?e" by simp
  with inside have "List.find ?P (map snd (ownProperties (indexSelectables found))) \<noteq> None"
    unfolding find_None_iff by blast
  then obtain x where x: "List.find ?P (map snd (ownProperties (indexSelectables found))) = Some x"
    by blast
  then have "?P x" and "x \<in> set (map snd (ownProperties (indexSelectables found)))"
    unfolding find_Some_iff by (blast, metis nth_mem)
  then have "pos x = i" and "element x = found ! i"
    unfolding indexSelectables_entry by simp_all
  then have "x = ?e" by simp
  with x True show ?thesis by (simp add: findWherePos_def)
next
  case False
  have "\<not> (\<exists>x. x \<in> set (map snd (ownProperties (indexSelectables found)))
           \<and> strictEquals (ByNumber (Finite (of_nat i))) (pos x))"
    unfolding indexSelectables_entry using False by auto
  then have "List.find (\<lambda>entry. strictEquals (ByNumber (Finite (of_nat i))) (pos entry))
       (map snd (ownProperties (indexSelectables found))) = None"
    unfolding find_None_iff .
  with False show ?thesis by (simp add: findWherePos_def)
qed

lemma findWherePos_outside:
  assumes "\<not> matchesByPosition found suggestion"
  shows "findWherePos (indexSelectables found) suggestion = None"
proof -
  have "\<not> strictEquals suggestion (pos x)"
    if "x \<in> set (map snd (ownProperties (indexSelectables found)))" for x
  proof
    assume eq: "strictEquals suggestion (pos x)"
    then obtain q where q: "suggestion = ByNumber (Finite q)" "q = of_nat (pos x)"
      by (cases "(suggestion, pos x)" rule: strictEquals.cases) simp_all
    from that have "pos x < length found" unfolding indexSelectables_entry by simp
    with q have "matchesByPosition found suggestion"
      by (auto simp: matchesByPosition_def)
    with assms show False by simp
  qed
  then show ?thesis by (auto simp: findWherePos_def find_None_iff)
qed

lemma displaying_index:
  "currentlyDisplayedSuggestions (component (displaying results)) =
     Some (indexSelectables (selectables (rowPerResult (map SuggestionResult results) (request ''f''))))"
  by (simp add: displaying_def runWidget_def handlePopulateOmnibox_def onTopQueries_def Let_def)

subsection \<open>Properties of indexOf\<close>

lemma indexOfFrom_absent: "item \<notin> set xs \<Longrightarrow> indexOfFrom i xs item = -1"
  by (induction xs arbitrary: i) auto

lemma indexOfFrom_present:
  "item \<in> set xs \<Longrightarrow>
     \<exists>k<length xs. indexOfFrom i xs item = int (i + k) \<and> xs ! k = item \<and> (\<forall>j<k. xs ! j \<noteq> item)"
proof (induction xs arbitrary: i)
  case Nil
  then show ?case by simp
next
  case (Cons x xs)
  show ?case
  proof (cases "x = item")
    case True
    then have "indexOfFrom i (x # xs) item = int (i + 0) \<and> (x # xs) ! 0 = item
        \<and> (\<forall>j<0. (x # xs) ! j \<noteq> item)"
      by simp
    then show ?thesis by blast
  next
    case False
    with Cons.prems have "item \<in> set xs" by simp
    from Cons.IH [OF this, of "Suc i"] obtain k where k: "k < length xs"
      "indexOfFrom (Suc i) xs item = int (Suc i + k)" "xs ! k = item" "\<forall>j<k. xs ! j \<noteq> item"
      by blast
    have "\<forall>j<Suc k. (x # xs) ! j \<noteq> item"
      using False k(4) by (auto simp: nth_Cons split: nat.splits)
    with False k have "Suc k < length (x # xs) \<and> indexOfFrom i (x # xs) item = int (i + Suc k)
        \<and> (x # xs) ! Suc k = item \<and> (\<forall>j<Suc k. (x # xs) ! j \<noteq> item)"
      by simp
    then show ?thesis by blast
  qed
qed

lemma indexOf_zero_based:
  "(item \<notin> set xs \<longrightarrow> indexOf xs item = -1)
   \<and> (item \<in> set xs \<longrightarrow> 0 \<le> indexOf xs item \<and> nat (indexOf xs item) < length xs
        \<and> xs ! nat (indexOf xs item) = item \<and> (\<forall>j<nat (indexOf xs item). xs ! j \<noteq> item))"
proof (cases "item \<in> set xs")
  case True
  from indexOfFrom_present [OF this, of 0] obtain k where "k < length xs"
    "indexOfFrom 0 xs item = int k" "xs ! k = item" "\<forall>j<k. xs ! j \<noteq> item"
    by auto
  with True show ?thesis by (simp add: indexOf_def)
next
  case False
  then show ?thesis by (simp add: indexOf_def indexOfFrom_absent)
qed

subsection \<open>Histories keep the render model and the last suggestions together\<close>

lemma runWidget_snoc:
  "runWidget options build (events @ [ev]) = widgetStep options build (runWidget options build events) ev"
  by (simp add: runWidget_def)

lemma lastFetched_snoc: "lastFetched (events @ [ev]) = fetched (lastFetched events) ev"
  by (simp add: lastFetched_def)

lemma runWidget_lastFetched:
  "map resultValue (resultsToBuildWith (component (runWidget options build events))) = lastFetched events
   \<and> lastSuggestions (component (runWidget options build events)) = lastFetched events"
proof (induction events rule: rev_induct)
  case Nil
  show ?case by (simp add: runWidget_def lastFetched_def initialPage_def initialWidget_def)
next
  case (snoc ev events)
  show ?case
  proof (cases ev)
    case (PopulateOmnibox args searchPromise)
    then show ?thesis
      using snoc
      by (cases searchPromise)
         (simp_all add: runWidget_snoc lastFetched_snoc handlePopulateOmnibox_def onTopQueries_def
            Let_def comp_def)
  next
    case QuerySuccess
    then show ?thesis using snoc by (simp add: runWidget_snoc lastFetched_snoc onQuerySuccess_def)
  next
    case (RowSelection chosen args)
    then show ?thesis using snoc by (simp add: runWidget_snoc lastFetched_snoc onRowSelection_def)
  qed
qed

subsection \<open>Claims about the widget\<close>

text \<open>
  \<^bold>\<open>C6.\<close> For every populate request, if the top-queries query rejects, the promise that
  \<open>handlePopulateOmnibox\<close> pushes onto the host's rows resolves (it never rejects) with a
  result whose element is undefined.
\<close>

theorem handlePopulateOmnibox_rejected_resolves:
  "handlePopulateOmnibox options build (Some args) (RejectedWith reason) p =
     Inr (args\<lparr>rows := rows args @ [Resolved \<lparr>rowElement = None, zIndex = None\<rparr>]\<rparr>,
          p\<lparr>effects := effects p @ [GetTopQueries (numberOfSuggestions options) (word args)]\<rparr>)"
  by (simp add: handlePopulateOmnibox_def)

theorem handlePopulateOmnibox_rejected_resolves_witness:
  "handlePopulateOmnibox defaultOptions rowPerResult (Some (request ''f''))
       (RejectedWith (ErrorResponse 503 ''Service Unavailable'')) initialPage
     = Inr (\<lparr>word = ''f'', rows = [Resolved \<lparr>rowElement = None, zIndex = None\<rparr>]\<rparr>,
            \<lparr>component = initialWidget, effects = [GetTopQueries 5 ''f'']\<rparr>)"
  using handlePopulateOmnibox_rejected_resolves
    [of defaultOptions rowPerResult "request ''f''" "ErrorResponse 503 ''Service Unavailable''" initialPage]
  by (simp add: request_def defaultOptions_def initialPage_def)

text \<open>
  \<^bold>\<open>C7.\<close> In \<open>onRowSelection\<close>, the \<open>suggestionRanking\<close> field of the logged event equals the
  zero-based index of the chosen value within the most recently fetched suggestion list,
  and equals \<open>-1\<close> when the chosen value does not occur in that list.

  After any history of widget events, \<open>onRowSelection\<close> appends its five calls, the logged
  event carries \<open>indexOf\<close> of the chosen value in the last fetched list, and that number
  is \<open>-1\<close> for an absent value and otherwise the first index holding the value.
\<close>

theorem onRowSelection_suggestionRanking:
  "effects (onRowSelection chosen args (runWidget options build events)) =
     effects (runWidget options build events) @
       [Clear, CloseOmnibox, QueryStateModelSet AttributeQ chosen,
        LogSearchEvent OmniboxAnalytics
          (topSuggestionMeta (component (runWidget options build events)) chosen args),
        ExecuteQuery]
   \<and> suggestionRanking (topSuggestionMeta (component (runWidget options build events)) chosen args)
       = indexOf (lastFetched events) chosen
   \<and> (chosen \<notin> set (lastFetched events) \<longrightarrow> indexOf (lastFetched events) chosen = -1)
   \<and> (chosen \<in> set (lastFetched events) \<longrightarrow>
         0 \<le> indexOf (lastFetched events) chosen
       \<and> nat (indexOf (lastFetched events) chosen) < length (lastFetched events)
       \<and> lastFetched events ! nat (indexOf (lastFetched events) chosen) = chosen
       \<and> (\<forall>j<nat (indexOf (lastFetched events) chosen). lastFetched events ! j \<noteq> chosen))"
proof -
  have "suggestionRanking (topSuggestionMeta (component (runWidget options build events)) chosen args)
       = indexOf (lastFetched events) chosen"
    by (simp add: topSuggestionMeta_def runWidget_lastFetched)
  then show ?thesis
    using indexOf_zero_based [of chosen "lastFetched events"] by (simp add: onRowSelection_def)
qed

theorem onRowSelection_suggestionRanking_witness:
  "''b'' \<in> set (lastFetched [PopulateOmnibox \<lparr>word = ''x'', rows = []\<rparr> (Fulfilled [''a'', ''b'', ''c'', ''b''])])
   \<and> suggestionRanking (topSuggestionMeta
        (component (runWidget defaultOptions rowPerResult
           [PopulateOmnibox \<lparr>word = ''x'', rows = []\<rparr> (Fulfilled [''a'', ''b'', ''c'', ''b''])]))
        ''b'' \<lparr>word = ''x'', rows = []\<rparr>) = 1
   \<and> ''z'' \<notin> set (lastFetched [PopulateOmnibox \<lparr>word = ''x'', rows = []\<rparr> (Fulfilled [''a'', ''b'', ''c'', ''b''])])
   \<and> suggestionRanking (topSuggestionMeta
        (component (runWidget defaultOptions rowPerResult
           [PopulateOmnibox \<lparr>word = ''x'', rows = []\<rparr> (Fulfilled [''a'', ''b'', ''c'', ''b''])]))
        ''z'' \<lparr>word = ''x'', rows = []\<rparr>) = -1"
  using onRowSelection_suggestionRanking [of "''b''" "\<lparr>word = ''x'', rows = []\<rparr>" defaultOptions rowPerResult
      "[PopulateOmnibox \<lparr>word = ''x'', rows = []\<rparr> (Fulfilled [''a'', ''b'', ''c'', ''b''])]"]
    onRowSelection_suggestionRanking [of "''z''" "\<lparr>word = ''x'', rows = []\<rparr>" defaultOptions rowPerResult
      "[PopulateOmnibox \<lparr>word = ''x'', rows = []\<rparr> (Fulfilled [''a'', ''b'', ''c'', ''b''])]"]
  by (simp add: lastFetched_def indexOf_def)

text \<open>
  \<^bold>\<open>C8.\<close> For every currently displayed suggestion list and every position \<open>i\<close> at which a
  suggestion is rendered, \<open>selectSuggestion(i)\<close> and \<open>selectSuggestion(label)\<close>, where \<open>label\<close>
  is the rendered label at position \<open>i\<close>, trigger the identical selection action.

  As stated this fails in two ways that follow from how the index is built and read. The
  index is keyed by label, so of two rows with the same label only the later one is
  stored: for the rows \<open>foo, foo\<close> position 0 is not found, while the label selects the
  second row. And the argument is dispatched with \<open>isNaN\<close>, so a label that reads as a
  number is compared with the positions and never found: for the single row \<open>2016\<close>
  position 0 selects it and its label selects nothing. It fails in a third way for the
  one label that a plain object cannot store: the assignment under \<^verbatim>\<open>__proto__\<close>
  replaces the prototype of the index and adds no own property, so for the single row
  \<^verbatim>\<open>__proto__\<close> position 0 finds nothing, while the label reads the prototype back and
  selects the row.
\<close>

theorem selectSuggestion_position_label_counterexample:
  "innerText (selectables (rowPerResult (map SuggestionResult [''foo'', ''foo'']) (request ''f'')) ! 0) = ''foo''
   \<and> selectSuggestionTarget (component (displaying [''foo'', ''foo''])) (ByNumber (Finite 0)) = Inr None
   \<and> selectSuggestionTarget (component (displaying [''foo'', ''foo''])) (ByString ''foo'')
       = Inr (Some (HTMLElement 2 ''foo'' []))
   \<and> innerText (selectables (rowPerResult (map SuggestionResult [''2016'']) (request ''f'')) ! 0) = ''2016''
   \<and> selectSuggestionTarget (component (displaying [''2016''])) (ByNumber (Finite 0))
       = Inr (Some (HTMLElement 1 ''2016'' []))
   \<and> selectSuggestionTarget (component (displaying [''2016''])) (ByString ''2016'') = Inr None
   \<and> innerText (selectables (rowPerResult (map SuggestionResult [''__proto__'']) (request ''f'')) ! 0)
       = ''__proto__''
   \<and> selectSuggestionTarget (component (displaying [''__proto__''])) (ByNumber (Finite 0)) = Inr None
   \<and> selectSuggestionTarget (component (displaying [''__proto__''])) (ByString ''__proto__'')
       = Inr (Some (HTMLElement 1 ''__proto__'' []))"
proof -
  have nan: "isNaN (ByString ''foo'')" "isNaN (ByString ''__proto__'')"
    and num: "\<not> isNaN (ByString ''2016'')"
    by code_simp+
  show ?thesis
    using nan num
    by (simp add: displaying_index rowPerResult_def selectSuggestionTarget_def
        indexSelectables_def findWherePos_def setProperty_def emptyObject_def getProperty_def
        getInherited_def)
qed

text \<open>
  \<^bold>\<open>C8, amended.\<close> For every displayed list and every position \<open>i\<close> whose rendered label
  is not rendered again at a later position, does not read as a number (\<open>isNaN(label)\<close>
  holds) and is not \<^verbatim>\<open>__proto__\<close>, \<open>selectSuggestion(i)\<close> and \<open>selectSuggestion(label)\<close>
  trigger the same click on the same element, the row at position \<open>i\<close>. (Nothing is said of
  labels that read as numbers, nor of the label \<^verbatim>\<open>__proto__\<close>.)
\<close>

theorem selectSuggestion_position_label_agree:
  assumes "currentlyDisplayedSuggestions (component p) = Some (indexSelectables found)"
      and "i < length found"
      and "isNaN (ByString (innerText (found ! i)))"
      and "\<forall>j. i < j \<and> j < length found \<longrightarrow> innerText (found ! j) \<noteq> innerText (found ! i)"
      and "innerText (found ! i) \<noteq> ''__proto__''"
  shows "selectSuggestionTarget (component p) (ByNumber (Finite (of_nat i))) = Inr (Some (found ! i))
       \<and> selectSuggestionTarget (component p) (ByString (innerText (found ! i))) = Inr (Some (found ! i))
       \<and> selectSuggestion triggerClick (ByNumber (Finite (of_nat i))) p = Inr (triggerClick (found ! i) p)
       \<and> selectSuggestion triggerClick (ByString (innerText (found ! i))) p
           = Inr (triggerClick (found ! i) p)"
proof -
  have byPos: "selectSuggestionTarget (component p) (ByNumber (Finite (of_nat i))) = Inr (Some (found ! i))"
    using assms(1,2,4,5) by (simp add: selectSuggestionTarget_def findWherePos_position)
  have "map_of (ownProperties (indexSelectables found)) (innerText (found ! i))
      = Some \<lparr>element = found ! i, pos = i\<rparr>"
    unfolding indexSelectables_lookup using assms(2,4,5) by simp
  then have byLabel:
    "selectSuggestionTarget (component p) (ByString (innerText (found ! i))) = Inr (Some (found ! i))"
    using assms(1,3) by (simp add: selectSuggestionTarget_def getProperty_def)
  from byPos byLabel show ?thesis by (simp add: selectSuggestion_def)
qed

theorem selectSuggestion_position_label_agree_witness:
  "currentlyDisplayedSuggestions (component (displaying [''foo'', ''bar'', ''foo''])) =
     Some (indexSelectables [HTMLElement 1 ''foo'' [], HTMLElement 2 ''bar'' [], HTMLElement 3 ''foo'' []])
   \<and> (2::nat) < length [HTMLElement 1 ''foo'' [], HTMLElement 2 ''bar'' [], HTMLElement 3 ''foo'' []]
   \<and> isNaN (ByString ''foo'') \<and> ''foo'' \<noteq> ''__proto__''
   \<and> selectSuggestionTarget (component (displaying [''foo'', ''bar'', ''foo''])) (ByNumber (Finite 2))
       = Inr (Some (HTMLElement 3 ''foo'' []))
   \<and> selectSuggestionTarget (component (displaying [''foo'', ''bar'', ''foo''])) (ByString ''foo'')
       = Inr (Some (HTMLElement 3 ''foo'' []))
   \<and> selectSuggestion (\<lambda>el. onRowSelection (innerText el) (request ''f'')) (ByNumber (Finite 2))
         (displaying [''foo'', ''bar'', ''foo''])
       = Inr (onRowSelection ''foo'' (request ''f'') (displaying [''foo'', ''bar'', ''foo'']))
   \<and> selectSuggestion (\<lambda>el. onRowSelection (innerText el) (request ''f'')) (ByString ''foo'')
         (displaying [''foo'', ''bar'', ''foo''])
       = Inr (onRowSelection ''foo'' (request ''f'') (displaying [''foo'', ''bar'', ''foo'']))"
proof -
  let ?found = "[HTMLElement 1 ''foo'' [], HTMLElement 2 ''bar'' [], HTMLElement 3 ''foo'' []]"
  have shown: "currentlyDisplayedSuggestions (component (displaying [''foo'', ''bar'', ''foo''])) =
      Some (indexSelectables ?found)"
    by (simp add: displaying_index rowPerResult_def eval_nat_numeral)
  have inside: "(2::nat) < length ?found" by simp
  have nan: "isNaN (ByString ''foo'')" by code_simp
  then have nan': "isNaN (ByString (innerText (?found ! 2)))" by simp
  have later: "\<forall>j. 2 < j \<and> j < length ?found \<longrightarrow> innerText (?found ! j) \<noteq> innerText (?found ! 2)"
    by simp
  have plain: "innerText (?found ! 2) \<noteq> ''__proto__''" by simp
  show ?thesis
    using shown inside nan
      selectSuggestion_position_label_agree [OF shown inside nan' later plain,
        of "\<lambda>el. onRowSelection (innerText el) (request ''f'')"]
    by simp
qed

text \<open>
  \<^bold>\<open>C10.\<close> For every identifier (string or number), if no suggestion list has yet been
  rendered or the identifier matches no currently displayed suggestion by label or
  position, \<open>selectSuggestion\<close> triggers no click, logs no event and leaves all widget state
  unchanged.

  The source departs from this at identifiers that match no row. The number \<open>NaN\<close> is
  neither a label nor a position, but \<open>isNaN\<close> sends it to the lookup by label, where it
  reads the property \<open>"NaN"\<close>: with a row labelled \<open>NaN\<close> rendered, that row is clicked and
  its listener logs an event. And the lookup by label is a plain property read, which
  also finds what the index inherits: for \<open>constructor\<close> (any function of
  \<^verbatim>\<open>Object.prototype\<close>) and for \<^verbatim>\<open>__proto__\<close> the test succeeds, the value has no
  \<open>element\<close>, and triggering the click on \<^verbatim>\<open>undefined\<close> throws.
\<close>

theorem selectSuggestion_unmatched_identifiers:
  "currentlyDisplayedSuggestions (component (displaying [''NaN'']))
     = Some (indexSelectables [HTMLElement 1 ''NaN'' []])
   \<and> \<not> matchesByLabel [HTMLElement 1 ''NaN'' []] (ByNumber NaN)
   \<and> \<not> matchesByPosition [HTMLElement 1 ''NaN'' []] (ByNumber NaN)
   \<and> selectSuggestionTarget (component (displaying [''NaN''])) (ByNumber NaN)
       = Inr (Some (HTMLElement 1 ''NaN'' []))
   \<and> selectSuggestion (\<lambda>el. onRowSelection (innerText el) (request ''f'')) (ByNumber NaN)
         (displaying [''NaN''])
       = Inr (onRowSelection ''NaN'' (request ''f'') (displaying [''NaN'']))
   \<and> onRowSelection ''NaN'' (request ''f'') (displaying [''NaN'']) \<noteq> displaying [''NaN'']
   \<and> currentlyDisplayedSuggestions (component (displaying [''foo'']))
       = Some (indexSelectables [HTMLElement 1 ''foo'' []])
   \<and> \<not> matchesByLabel [HTMLElement 1 ''foo'' []] (ByString ''constructor'')
   \<and> \<not> matchesByPosition [HTMLElement 1 ''foo'' []] (ByString ''constructor'')
   \<and> selectSuggestion (\<lambda>el. onRowSelection (innerText el) (request ''f'')) (ByString ''constructor'')
         (displaying [''foo''])
       = Inl UndefinedElement
   \<and> \<not> matchesByLabel [HTMLElement 1 ''foo'' []] (ByString ''__proto__'')
   \<and> \<not> matchesByPosition [HTMLElement 1 ''foo'' []] (ByString ''__proto__'')
   \<and> selectSuggestion (\<lambda>el. onRowSelection (innerText el) (request ''f'')) (ByString ''__proto__'')
         (displaying [''foo''])
       = Inl UndefinedElement"
proof -
  have nan: "isNaN (ByString ''constructor'')" "isNaN (ByString ''__proto__'')"
    by code_simp+
  have logged: "onRowSelection ''NaN'' (request ''f'') (displaying [''NaN'']) \<noteq> displaying [''NaN'']"
  proof
    assume "onRowSelection ''NaN'' (request ''f'') (displaying [''NaN'']) = displaying [''NaN'']"
    then have "effects (onRowSelection ''NaN'' (request ''f'') (displaying [''NaN'']))
        = effects (displaying [''NaN''])"
      by simp
    then show False by (simp add: onRowSelection_def)
  qed
  have byNaN: "selectSuggestionTarget (component (displaying [''NaN''])) (ByNumber NaN)
       = Inr (Some (HTMLElement 1 ''NaN'' []))"
    by (simp add: displaying_index rowPerResult_def selectSuggestionTarget_def
        indexSelectables_def setProperty_def emptyObject_def getProperty_def)
  have inherited:
    "selectSuggestionTarget (component (displaying [''foo''])) (ByString ''constructor'')
       = Inl UndefinedElement"
    "selectSuggestionTarget (component (displaying [''foo''])) (ByString ''__proto__'')
       = Inl UndefinedElement"
    using nan
    by (simp_all add: displaying_index rowPerResult_def selectSuggestionTarget_def
        indexSelectables_def setProperty_def emptyObject_def getProperty_def getInherited_def
        objectPrototypeFunctions_def)
  show ?thesis
    using logged byNaN inherited
    by (simp add: selectSuggestion_def displaying_index rowPerResult_def
        matchesByLabel_def matchesByPosition_def)
qed

text \<open>
  Everywhere else the source does what the claim says. With no index rendered, or with an
  identifier that matches no row by label or position and that is neither the number
  \<open>NaN\<close> beside a row labelled \<open>NaN\<close> nor a string naming an inherited member, no click is
  triggered and, whatever the click listeners are, the page (the widget state and the
  recorded calls, the logged events among them) is returned unchanged.
\<close>

lemma getInherited_absent: "key \<notin> set inheritedNames \<Longrightarrow> getInherited proto key = Absent"
  by (cases proto) (auto simp: getInherited_def inheritedNames_def)

lemma selectSuggestion_unmatched_quiet:
  assumes "currentlyDisplayedSuggestions (component p) = None
         \<or> (currentlyDisplayedSuggestions (component p) = Some (indexSelectables found)
              \<and> \<not> matchesByLabel found suggestion
              \<and> \<not> matchesByPosition found suggestion
              \<and> (suggestion = ByNumber NaN \<longrightarrow> ''NaN'' \<notin> set (map innerText found))
              \<and> (\<forall>s. suggestion = ByString s \<longrightarrow> s \<notin> set inheritedNames))"
  shows "selectSuggestionTarget (component p) suggestion = Inr None
       \<and> selectSuggestion triggerClick suggestion p = Inr p"
proof -
  have "selectSuggestionTarget (component p) suggestion = Inr None"
  proof (cases "currentlyDisplayedSuggestions (component p)")
    case None
    then show ?thesis by (simp add: selectSuggestionTarget_def)
  next
    case (Some displayed)
    with assms have built: "displayed = indexSelectables found"
      and noLabel: "\<not> matchesByLabel found suggestion"
      and noPos: "\<not> matchesByPosition found suggestion"
      and nan: "suggestion = ByNumber NaN \<longrightarrow> ''NaN'' \<notin> set (map innerText found)"
      and own: "\<forall>s. suggestion = ByString s \<longrightarrow> s \<notin> set inheritedNames"
      by auto
    have outside: "findWherePos displayed suggestion = None"
      using noPos built by (simp add: findWherePos_outside)
    have absent: "getProperty displayed key = Absent"
      if "key \<notin> set (map innerText found)" and "key \<notin> set inheritedNames" for key
    proof (cases "map_of (ownProperties displayed) key")
      case None
      with that(2) show ?thesis by (simp add: getProperty_def getInherited_absent)
    next
      case (Some entry)
      with built that(1) indexSelectables_own_label show ?thesis by blast
    qed
    show ?thesis
    proof (cases suggestion)
      case (ByString s)
      with noLabel own have "s \<notin> set (map innerText found)" and "s \<notin> set inheritedNames"
        by (simp_all add: matchesByLabel_def)
      then have "getProperty displayed s = Absent" by (rule absent)
      with Some ByString outside show ?thesis
        by (simp add: selectSuggestionTarget_def)
    next
      case (ByNumber n)
      show ?thesis
      proof (cases "n = NaN")
        case True
        with nan ByNumber have "''NaN'' \<notin> set (map innerText found)" by simp
        moreover have "''NaN'' \<notin> set inheritedNames"
          by (simp add: inheritedNames_def objectPrototypeFunctions_def)
        ultimately have "getProperty displayed ''NaN'' = Absent" by (rule absent)
        with Some ByNumber True show ?thesis by (simp add: selectSuggestionTarget_def)
      next
        case False
        with Some ByNumber outside show ?thesis by (simp add: selectSuggestionTarget_def)
      qed
    qed
  qed
  then show ?thesis by (simp add: selectSuggestion_def)
qed

section \<open>AnalyticsEndpoint\<close>

subsection \<open>Requests, responses and endpoint state\<close>

text \<open>
  An event is represented by its serialised text. The parameters of a query are those of
  the top-queries query (\<^verbatim>\<open>ITopQueries\<close>, of which the widget sets \<open>pageSize\<close> and
  \<open>queryText\<close>) or the empty object of the visit query. What a call carries as
  \<open>requestData\<close> is the data of a send, or the parameters of a query together with the
  property \<open>access_token\<close> when \<open>getFromService\<close> adds it. A response to a send is the
  decoded body: the properties that \<open>handleAnalyticsEventResponse\<close> reads, \<open>None\<close> for a
  missing one.
\<close>

type_synonym event = string

record top_queries =
  pageSize :: nat
  queryText :: string

datatype query_params = NoParams | TopQueries top_queries

datatype request_data =
    SearchEvents "event list"
  | ClickEvent event
  | CustomEvent event
  | QueryParams "string option" query_params

datatype http_method = GET | POST

text \<open>
  The options object handed to \<^verbatim>\<open>endpointCaller.call\<close>; a query sets no
  \<open>requestDataType\<close>.
\<close>

record endpoint_call =
  errorsAsSuccess :: bool
  httpMethod :: http_method
  queryString :: "string list"
  requestData :: request_data
  url :: string
  responseType :: string
  requestDataType :: "string option"

record beacon =
  beaconUrl :: string
  beaconBody :: request_data

record send_request =
  sendData :: request_data
  sendPath :: string
  sendParamName :: string

record analytics_event_response =
  eventVisitId :: "string option"
  eventVisitorId :: "string option"

record analytics_response =
  responseVisitId :: "string option"
  responseVisitorId :: "string option"
  searchEventResponses :: "analytics_event_response list option"

text \<open>
  The data of a response to a query: the visit (\<^verbatim>\<open>IAPIAnalyticsVisitResponseRest\<close>, of
  which the source reads \<open>id\<close>) or the list of top queries. \<open>get_purpose\<close> tells which of
  the two queries a request in flight belongs to.
\<close>

datatype query_data = VisitData "string option" | TopQueriesData "string list"

datatype get_purpose = ForVisit | ForTopQueries

text \<open>
  The options of the endpoint and what it uses of its runtime: the static
  \<open>CUSTOM_ANALYTICS_VERSION\<close>, whether \<^verbatim>\<open>navigator.sendBeacon\<close> exists, and the helpers
  \<^verbatim>\<open>QueryUtils.mergePath\<close>, \<^verbatim>\<open>encodeURIComponent\<close> and
  \<^verbatim>\<open>EndpointCaller.combineUrlAndQueryString\<close>, which are parameters.
\<close>

record endpoint_options =
  token :: "string option"
  serviceUrl :: string
  organization :: "string option"

record runtime =
  options :: endpoint_options
  CUSTOM_ANALYTICS_VERSION :: "string option"
  hasSendBeacon :: bool
  mergePath :: "string \<Rightarrow> string \<Rightarrow> string"
  encodeURIComponent :: "string \<Rightarrow> string"
  combineUrlAndQueryString :: "string \<Rightarrow> string list \<Rightarrow> string"

text \<open>
  The state: the field \<open>visitId\<close>, the cookie jar, the static \<open>pendingRequest\<close> (the promise
  stored there is identified by the number of the request it belongs to), and the
  bookkeeping of the network: every call issued through \<^verbatim>\<open>endpointCaller.call\<close> so far
  with its number (\<open>calls\<close>), the requests issued by \<open>sendUsingEndpointCaller\<close> and not yet
  settled (\<open>inFlight\<close>), the requests issued by \<open>getFromService\<close> and not yet settled, each
  with its purpose (\<open>queriesInFlight\<close>), the beacons sent, the \<open>beforeunload\<close> listeners
  added, the callbacks registered with \<^verbatim>\<open>pendingRequest.finally\<close> and the promise each
  waits for (\<open>deferred\<close>), and the callbacks whose promise has settled and that have not
  run yet (\<open>ready\<close>).
\<close>

record endpoint =
  visitId :: "string option"
  cookies :: "string \<rightharpoonup> string"
  pendingRequest :: "nat option"
  inFlight :: "nat list"
  queriesInFlight :: "(nat \<times> get_purpose) list"
  calls :: "(nat \<times> endpoint_call) list"
  beacons :: "beacon list"
  unloadListeners :: nat
  deferred :: "(nat \<times> send_request) list"
  ready :: "send_request list"
  nextId :: nat

text \<open>
  What a send returns: nothing, the promise of the request just issued, or the promise
  derived with \<^verbatim>\<open>finally\<close> from the pending one. What a query returns: the promise of the
  request just issued, or a promise already resolved with the visit id.
\<close>

datatype send_result = Undefined | RequestPromise nat | AfterPending nat

datatype query_result = QueryPromise nat | ResolvedWith string

definition DEFAULT_ANALYTICS_VERSION :: string where
  "DEFAULT_ANALYTICS_VERSION = ''v15''"

text \<open>JavaScript truthiness of an optional string: present and not empty.\<close>

definition truthy :: "string option \<Rightarrow> bool" where
  "truthy v = (case v of None \<Rightarrow> False | Some s \<Rightarrow> s \<noteq> [])"

text \<open>
  Modelled from the spec: \<^verbatim>\<open>Cookie.get\<close> and \<^verbatim>\<open>Cookie.set\<close> of
  \<^verbatim>\<open>utils/CookieUtils\<close>, which is not among the sources. The spec says that a
  discovered visitor id is "written back into the long-lived cookie" and that the query
  string carries the cookie's value; the jar is a map from cookie name to value (the
  expiry is not modelled).
\<close>

definition Cookie_get :: "string \<Rightarrow> endpoint \<Rightarrow> string option" where
  "Cookie_get name s = cookies s name"

definition Cookie_set :: "string \<Rightarrow> string \<Rightarrow> endpoint \<Rightarrow> endpoint" where
  "Cookie_set name v s = s\<lparr>cookies := (cookies s)(name \<mapsto> v)\<rparr>"

definition initialEndpoint :: "(string \<rightharpoonup> string) \<Rightarrow> endpoint" where
  "initialEndpoint jar =
     \<lparr>visitId = None, cookies = jar, pendingRequest = None, inFlight = [],
      queriesInFlight = [], calls = [], beacons = [], unloadListeners = 0, deferred = [],
      ready = [], nextId = 0\<rparr>"

subsection \<open>Visit bookkeeping\<close>

text \<open>Lines 48 to 50 and 152 to 172. \<^verbatim>\<open>_.first\<close> of an empty array is undefined, and
  reading its \<open>visitId\<close> throws.\<close>

definition getCurrentVisitId :: "endpoint \<Rightarrow> string option" where
  "getCurrentVisitId s = visitId s"

definition handleAnalyticsEventResponse ::
    "analytics_response \<Rightarrow> endpoint \<Rightarrow> js_error + endpoint" where
  "handleAnalyticsEventResponse response s =
     (let found =
            (if truthy (responseVisitId response)
             then Inr (responseVisitId response, responseVisitorId response)
             else (case searchEventResponses response of
                     None \<Rightarrow> Inr (None, None)
                   | Some [] \<Rightarrow> Inl TypeError
                   | Some (first # others) \<Rightarrow> Inr (eventVisitId first, eventVisitorId first)))
      in case found of
           Inl failure \<Rightarrow> Inl failure
         | Inr (newVisitId, newVisitorId) \<Rightarrow>
             (let s1 = (if truthy newVisitId then s\<lparr>visitId := newVisitId\<rparr> else s);
                  s2 = (if truthy newVisitorId
                        then Cookie_set ''visitorId'' (the newVisitorId) s1 else s1)
              in Inr s2))"

subsection \<open>Sending\<close>

text \<open>
  Lines 70 to 87 (the three public sends), 94 to 136 and 179 to 205. \<open>serviceUrlFor\<close> and
  \<open>serviceQueryString\<close> are the locals \<open>url\<close> and \<open>queryString\<close> of \<open>sendToService\<close>;
  \<open>postCall\<close> is the options object handed to \<^verbatim>\<open>endpointCaller.call\<close>. A missing
  document-view or custom event (\<open>None\<close>) fails \<^verbatim>\<open>Assert.exists\<close>; the calls on the logger
  are left out.
\<close>

definition analyticsVersion :: "runtime \<Rightarrow> string" where
  "analyticsVersion rt =
     (if truthy (CUSTOM_ANALYTICS_VERSION rt) then the (CUSTOM_ANALYTICS_VERSION rt)
      else DEFAULT_ANALYTICS_VERSION)"

definition postCall :: "string \<Rightarrow> string list \<Rightarrow> request_data \<Rightarrow> endpoint_call" where
  "postCall target query body =
     \<lparr>errorsAsSuccess = False, httpMethod = POST, queryString = query, requestData = body,
      url = target, responseType = ''text'', requestDataType = Some ''application/json''\<rparr>"

definition sendUsingEndpointCaller ::
    "string \<Rightarrow> string list \<Rightarrow> request_data \<Rightarrow> endpoint \<Rightarrow> send_result \<times> endpoint" where
  "sendUsingEndpointCaller target query body s =
     (let n = nextId s
      in (RequestPromise n,
          s\<lparr>calls := calls s @ [(n, postCall target query body)], inFlight := inFlight s @ [n],
            pendingRequest := Some n, nextId := Suc n\<rparr>))"

definition tokenText :: "runtime \<Rightarrow> string" where
  "tokenText rt = (case token (options rt) of None \<Rightarrow> ''undefined'' | Some t \<Rightarrow> t)"

definition sendDataBeforeUnloadUsingBeacon ::
    "runtime \<Rightarrow> string \<Rightarrow> string list \<Rightarrow> request_data \<Rightarrow> endpoint \<Rightarrow> endpoint" where
  "sendDataBeforeUnloadUsingBeacon rt target query body s =
     s\<lparr>beacons := beacons s @
        [\<lparr>beaconUrl = combineUrlAndQueryString rt target (query @ [''access_token='' @ tokenText rt]),
          beaconBody = body\<rparr>]\<rparr>"

definition sendDataBeforeUnloadUsingHack ::
    "string \<Rightarrow> string list \<Rightarrow> request_data \<Rightarrow> endpoint \<Rightarrow> endpoint" where
  "sendDataBeforeUnloadUsingHack target query body s =
     (let s1 = snd (sendUsingEndpointCaller target query body s)
      in s1\<lparr>unloadListeners := Suc (unloadListeners s1)\<rparr>)"

definition sendDataBeforeUnload ::
    "runtime \<Rightarrow> string \<Rightarrow> string list \<Rightarrow> request_data \<Rightarrow> endpoint \<Rightarrow> endpoint" where
  "sendDataBeforeUnload rt target query body s =
     (if hasSendBeacon rt then sendDataBeforeUnloadUsingBeacon rt target query body s
      else sendDataBeforeUnloadUsingHack target query body s)"

definition serviceUrlFor :: "runtime \<Rightarrow> string \<Rightarrow> string" where
  "serviceUrlFor rt path =
     mergePath rt (serviceUrl (options rt))
       (''/rest/'' @ analyticsVersion rt @ ''/analytics/'' @ path)"

definition serviceQueryString :: "runtime \<Rightarrow> endpoint \<Rightarrow> string list" where
  "serviceQueryString rt s =
     (if truthy (organization (options rt))
      then [''org='' @ the (organization (options rt))] else [])
     @ (if truthy (Cookie_get ''visitorId'' s)
        then [''visitor='' @ encodeURIComponent rt (the (Cookie_get ''visitorId'' s))] else [])"

definition sendToService ::
    "runtime \<Rightarrow> request_data \<Rightarrow> string \<Rightarrow> string \<Rightarrow> bool \<Rightarrow> endpoint \<Rightarrow> send_result \<times> endpoint" where
  "sendToService rt body path paramName willCausePageUnload s =
     (let target = serviceUrlFor rt path;
          query = serviceQueryString rt s
      in if willCausePageUnload
         then (Undefined, sendDataBeforeUnload rt target query body s)
         else (case pendingRequest s of
                 None \<Rightarrow> sendUsingEndpointCaller target query body s
               | Some pending \<Rightarrow>
                   (AfterPending pending,
                    s\<lparr>deferred := deferred s @
                       [(pending, \<lparr>sendData = body, sendPath = path, sendParamName = paramName\<rparr>)]\<rparr>)))"

definition sendSearchEvents :: "runtime \<Rightarrow> event list \<Rightarrow> endpoint \<Rightarrow> send_result \<times> endpoint" where
  "sendSearchEvents rt searchEvents s =
     (if length searchEvents > 0
      then sendToService rt (SearchEvents searchEvents) ''searches'' ''searchEvents'' False s
      else (Undefined, s))"

definition sendDocumentViewEvent ::
    "runtime \<Rightarrow> event option \<Rightarrow> endpoint \<Rightarrow> js_error + send_result \<times> endpoint" where
  "sendDocumentViewEvent rt documentViewEvent s =
     (case documentViewEvent of
        None \<Rightarrow> Inl AssertionFailed
      | Some ev \<Rightarrow> Inr (sendToService rt (ClickEvent ev) ''click'' ''clickEvent'' True s))"

definition sendCustomEvent ::
    "runtime \<Rightarrow> event option \<Rightarrow> endpoint \<Rightarrow> js_error + send_result \<times> endpoint" where
  "sendCustomEvent rt customEvent s =
     (case customEvent of
        None \<Rightarrow> Inl AssertionFailed
      | Some ev \<Rightarrow> Inr (sendToService rt (CustomEvent ev) ''custom'' ''customEvent'' False s))"

subsection \<open>Queries\<close>

text \<open>
  Lines 52 to 68, 89 to 92, 138 to 150 and 175 to 177. A query goes through
  \<^verbatim>\<open>endpointCaller.call\<close> at once: \<open>getFromService\<close> neither reads nor writes
  \<open>pendingRequest\<close>. \<open>accessToken\<close> is the property \<open>access_token\<close> that \<open>getFromService\<close>
  adds to the parameters when the token is set and not empty; \<open>getCall\<close> is the options
  object of the call. The argument \<open>purpose\<close> of \<open>getFromService\<close> stands for the callbacks
  that its caller attaches to the promise it returns.
\<close>

definition buildAnalyticsUrl :: "runtime \<Rightarrow> string \<Rightarrow> string" where
  "buildAnalyticsUrl rt path = serviceUrl (options rt) @ ''/rest/'' @ analyticsVersion rt @ path"

definition accessToken :: "runtime \<Rightarrow> string option" where
  "accessToken rt = (if truthy (token (options rt)) then token (options rt) else None)"

definition getCall :: "runtime \<Rightarrow> string \<Rightarrow> request_data \<Rightarrow> endpoint_call" where
  "getCall rt target paramsToSend =
     \<lparr>errorsAsSuccess = False, httpMethod = GET,
      queryString = (if truthy (organization (options rt))
                     then [''org='' @ encodeURIComponent rt (the (organization (options rt)))]
                     else []),
      requestData = paramsToSend, url = target, responseType = ''json'',
      requestDataType = None\<rparr>"

definition getFromService ::
    "runtime \<Rightarrow> string \<Rightarrow> query_params \<Rightarrow> get_purpose \<Rightarrow> endpoint \<Rightarrow> nat \<times> endpoint" where
  "getFromService rt target params purpose s =
     (let paramsToSend = QueryParams (accessToken rt) params;
          n = nextId s
      in (n, s\<lparr>calls := calls s @ [(n, getCall rt target paramsToSend)],
               queriesInFlight := queriesInFlight s @ [(n, purpose)], nextId := Suc n\<rparr>))"

definition getTopQueries :: "runtime \<Rightarrow> top_queries \<Rightarrow> endpoint \<Rightarrow> query_result \<times> endpoint" where
  "getTopQueries rt params s =
     (let (n, s') = getFromService rt (buildAnalyticsUrl rt ''/stats/topQueries'')
                      (TopQueries params) ForTopQueries s
      in (QueryPromise n, s'))"

definition getCurrentVisitIdPromise :: "runtime \<Rightarrow> endpoint \<Rightarrow> query_result \<times> endpoint" where
  "getCurrentVisitIdPromise rt s =
     (if truthy (getCurrentVisitId s) then (ResolvedWith (the (getCurrentVisitId s)), s)
      else (let (n, s') = getFromService rt (buildAnalyticsUrl rt ''/analytics/visit'')
                            NoParams ForVisit s
            in (QueryPromise n, s')))"

subsection \<open>Settlement of requests and deferred sends\<close>

text \<open>
  When the network call of request \<open>n\<close> settles, the chain built by
  \<open>sendUsingEndpointCaller\<close> runs: on success \<open>handleAnalyticsEventResponse\<close> (an exception
  in it rejects the promise and changes nothing else), then in either case the
  \<^verbatim>\<open>finally\<close> callback, which sets \<open>pendingRequest\<close> to null whatever it holds. The promise
  stored for \<open>n\<close> is then settled and the callbacks registered on it become ready, in the
  order of their registration.
\<close>

definition settle :: "nat \<Rightarrow> analytics_response settlement \<Rightarrow> endpoint \<Rightarrow> endpoint" where
  "settle n outcome s =
     (if n \<in> set (inFlight s)
      then (let s1 = s\<lparr>inFlight := removeAll n (inFlight s)\<rparr>;
                s2 = (case outcome of
                        Fulfilled response \<Rightarrow>
                          (case handleAnalyticsEventResponse response s1 of
                             Inl failure \<Rightarrow> s1
                           | Inr handled \<Rightarrow> handled)
                      | RejectedWith reason \<Rightarrow> s1);
                s3 = s2\<lparr>pendingRequest := None\<rparr>
            in s3\<lparr>ready := ready s3 @ map snd (filter (\<lambda>waiting. fst waiting = n) (deferred s3)),
                  deferred := filter (\<lambda>waiting. fst waiting \<noteq> n) (deferred s3)\<rparr>)
      else s)"

text \<open>
  A ready callback runs \<open>sendToService(data, path, paramName)\<close> again, from the start.
\<close>

definition runDeferred :: "runtime \<Rightarrow> endpoint \<Rightarrow> endpoint" where
  "runDeferred rt s =
     (case ready s of
        [] \<Rightarrow> s
      | waiter # others \<Rightarrow>
          snd (sendToService rt (sendData waiter) (sendPath waiter) (sendParamName waiter) False
                 (s\<lparr>ready := others\<rparr>)))"

text \<open>
  When a query settles, the chain built by \<open>getFromService\<close> hands on the data; for the
  visit query the callback of \<open>getCurrentVisitIdPromise\<close> then stores \<open>response.id\<close> (which
  data without an \<open>id\<close> leaves undefined). A failure changes nothing.
\<close>

fun responseId :: "query_data \<Rightarrow> string option" where
  "responseId (VisitData identifier) = identifier"
| "responseId (TopQueriesData queries) = None"

definition settleQuery :: "nat \<Rightarrow> query_data settlement \<Rightarrow> endpoint \<Rightarrow> endpoint" where
  "settleQuery n outcome s =
     (case map_of (queriesInFlight s) n of
        None \<Rightarrow> s
      | Some purpose \<Rightarrow>
          (let s1 = s\<lparr>queriesInFlight := filter (\<lambda>query. fst query \<noteq> n) (queriesInFlight s)\<rparr>
           in case outcome of
                Fulfilled response \<Rightarrow>
                  (case purpose of
                     ForVisit \<Rightarrow> s1\<lparr>visitId := responseId response\<rparr>
                   | ForTopQueries \<Rightarrow> s1)
              | RejectedWith reason \<Rightarrow> s1))"

text \<open>
  The events of a history: the three public sends, the two queries, the settlement of a
  request by the network, and the run of the next ready callback. Ready callbacks may run
  at any later point of a history, so every interleaving of callbacks with new sends is
  covered.
\<close>

datatype endpoint_event =
    SendSearchEvents "event list"
  | SendDocumentViewEvent event
  | SendCustomEvent event
  | AskTopQueries top_queries
  | AskCurrentVisitId
  | Settle nat "analytics_response settlement"
  | SettleQuery nat "query_data settlement"
  | RunDeferred

fun endpointStep :: "runtime \<Rightarrow> endpoint \<Rightarrow> endpoint_event \<Rightarrow> endpoint" where
  "endpointStep rt s (SendSearchEvents searchEvents) = snd (sendSearchEvents rt searchEvents s)"
| "endpointStep rt s (SendDocumentViewEvent documentViewEvent) =
     (case sendDocumentViewEvent rt (Some documentViewEvent) s of
        Inl failure \<Rightarrow> s
      | Inr (returned, s') \<Rightarrow> s')"
| "endpointStep rt s (SendCustomEvent customEvent) =
     (case sendCustomEvent rt (Some customEvent) s of
        Inl failure \<Rightarrow> s
      | Inr (returned, s') \<Rightarrow> s')"
| "endpointStep rt s (AskTopQueries params) = snd (getTopQueries rt params s)"
| "endpointStep rt s AskCurrentVisitId = snd (getCurrentVisitIdPromise rt s)"
| "endpointStep rt s (Settle n outcome) = settle n outcome s"
| "endpointStep rt s (SettleQuery n outcome) = settleQuery n outcome s"
| "endpointStep rt s RunDeferred = runDeferred rt s"

definition runEndpoint :: "runtime \<Rightarrow> endpoint \<Rightarrow> endpoint_event list \<Rightarrow> endpoint" where
  "runEndpoint rt s events = foldl (endpointStep rt) s events"

fun causesUnload :: "endpoint_event \<Rightarrow> bool" where
  "causesUnload (SendDocumentViewEvent documentViewEvent) = True"
| "causesUnload ev = False"

text \<open>
  A round of the network: the oldest request in flight settles, with the outcome the
  network has for it, and the callbacks that became ready run, in order. \<open>rounds\<close> bounds
  the number of rounds after which nothing is left in flight or waiting.
\<close>

definition runReady :: "runtime \<Rightarrow> endpoint \<Rightarrow> endpoint" where
  "runReady rt s = (runDeferred rt ^^ length (ready s)) s"

definition settleNext ::
    "runtime \<Rightarrow> (nat \<Rightarrow> analytics_response settlement) \<Rightarrow> endpoint \<Rightarrow> endpoint" where
  "settleNext rt outcome s =
     (case inFlight s of
        [] \<Rightarrow> s
      | n # others \<Rightarrow> runReady rt (settle n (outcome n) s))"

definition rounds :: "endpoint \<Rightarrow> nat" where
  "rounds s = 2 * (length (deferred s) + length (ready s)) + length (inFlight s)"

text \<open>
  How often a body has been posted to a path so far, and how many sends of that body to
  that path are still waiting: registered on a promise, or ready to run.
\<close>

definition postedTo :: "runtime \<Rightarrow> request_data \<Rightarrow> string \<Rightarrow> endpoint \<Rightarrow> nat" where
  "postedTo rt body path s =
     length (filter (\<lambda>issued. httpMethod (snd issued) = POST \<and> requestData (snd issued) = body
                        \<and> url (snd issued) = serviceUrlFor rt path) (calls s))"

definition waitingFor :: "runtime \<Rightarrow> request_data \<Rightarrow> string \<Rightarrow> endpoint \<Rightarrow> nat" where
  "waitingFor rt body path s =
     length (filter (\<lambda>waiter. sendData waiter = body
                        \<and> serviceUrlFor rt (sendPath waiter) = serviceUrlFor rt path)
               (map snd (deferred s) @ ready s))"

text \<open>
  Two properties of a state. \<open>serialised\<close>: the requests of sends in flight are exactly
  the pending one, and every registered callback waits for the pending request.
  \<open>waitsOnFlight\<close>: every registered callback waits for a request in flight, and the slot,
  when set, holds one.
\<close>

definition serialised :: "endpoint \<Rightarrow> bool" where
  "serialised s =
     (inFlight s = (case pendingRequest s of None \<Rightarrow> [] | Some n \<Rightarrow> [n])
      \<and> list_all (\<lambda>waiting. pendingRequest s = Some (fst waiting)) (deferred s))"

definition waitsOnFlight :: "endpoint \<Rightarrow> bool" where
  "waitsOnFlight s =
     (list_all (\<lambda>waiting. fst waiting \<in> set (inFlight s)) (deferred s)
      \<and> set_option (pendingRequest s) \<subseteq> set (inFlight s))"

text \<open>Fixtures for the examples.\<close>

definition exampleRuntime :: "bool \<Rightarrow> runtime" where
  "exampleRuntime beacon =
     \<lparr>options = \<lparr>token = Some ''t'', serviceUrl = ''https://usageanalytics.coveo.com'',
                 organization = Some ''o''\<rparr>,
      CUSTOM_ANALYTICS_VERSION = None, hasSendBeacon = beacon,
      mergePath = (\<lambda>base path. base @ path), encodeURIComponent = (\<lambda>text. text),
      combineUrlAndQueryString = (\<lambda>target query. target @ ''?'' @ concat query)\<rparr>"

definition visitResponse :: "string \<Rightarrow> string \<Rightarrow> analytics_response" where
  "visitResponse v w =
     \<lparr>responseVisitId = Some v, responseVisitorId = Some w, searchEventResponses = None\<rparr>"

lemmas endpoint_eval =
  runEndpoint_def initialEndpoint_def exampleRuntime_def visitResponse_def
  sendSearchEvents_def sendCustomEvent_def sendDocumentViewEvent_def sendToService_def
  sendUsingEndpointCaller_def sendDataBeforeUnload_def sendDataBeforeUnloadUsingBeacon_def
  sendDataBeforeUnloadUsingHack_def settle_def runDeferred_def handleAnalyticsEventResponse_def
  serviceUrlFor_def serviceQueryString_def analyticsVersion_def DEFAULT_ANALYTICS_VERSION_def
  truthy_def Cookie_get_def Cookie_set_def postCall_def tokenText_def Let_def
  getTopQueries_def getCurrentVisitIdPromise_def getFromService_def getCall_def
  buildAnalyticsUrl_def accessToken_def settleQuery_def

subsection \<open>The slot invariant\<close>

lemma handle_frame:
  "handleAnalyticsEventResponse response s = Inr s' \<Longrightarrow>
     s' = s\<lparr>visitId := visitId s', cookies := cookies s'\<rparr>"
  by (auto simp: handleAnalyticsEventResponse_def Cookie_set_def Let_def
      split: if_splits option.splits list.splits)

lemma handle_keeps:
  assumes "handleAnalyticsEventResponse response s = Inr s'"
  shows "inFlight s' = inFlight s" and "pendingRequest s' = pendingRequest s"
    and "deferred s' = deferred s" and "ready s' = ready s" and "calls s' = calls s"
    and "nextId s' = nextId s" and "beacons s' = beacons s"
proof -
  from handle_frame [OF assms] obtain v c where "s' = s\<lparr>visitId := v, cookies := c\<rparr>" by blast
  then show "inFlight s' = inFlight s" and "pendingRequest s' = pendingRequest s"
    and "deferred s' = deferred s" and "ready s' = ready s" and "calls s' = calls s"
    and "nextId s' = nextId s" and "beacons s' = beacons s"
    by simp_all
qed

text \<open>What a settlement changes of the bookkeeping, whatever the outcome.\<close>

lemma settle_in_flight:
  assumes "n \<in> set (inFlight s)"
  shows "inFlight (settle n outcome s) = removeAll n (inFlight s)"
    and "pendingRequest (settle n outcome s) = None"
    and "deferred (settle n outcome s) = filter (\<lambda>waiting. fst waiting \<noteq> n) (deferred s)"
    and "ready (settle n outcome s)
           = ready s @ map snd (filter (\<lambda>waiting. fst waiting = n) (deferred s))"
    and "calls (settle n outcome s) = calls s"
    and "nextId (settle n outcome s) = nextId s"
proof -
  let ?s1 = "s\<lparr>inFlight := removeAll n (inFlight s)\<rparr>"
  obtain s2 where s2: "settle n outcome s
      = s2\<lparr>pendingRequest := None,
           ready := ready s2 @ map snd (filter (\<lambda>waiting. fst waiting = n) (deferred s2)),
           deferred := filter (\<lambda>waiting. fst waiting \<noteq> n) (deferred s2)\<rparr>"
    and keeps: "inFlight s2 = inFlight ?s1" "deferred s2 = deferred ?s1" "ready s2 = ready ?s1"
      "calls s2 = calls ?s1" "nextId s2 = nextId ?s1"
  proof (cases outcome)
    case (Fulfilled response)
    show ?thesis
    proof (cases "handleAnalyticsEventResponse response ?s1")
      case (Inl failure)
      with Fulfilled assms that [of ?s1] show ?thesis by (simp add: settle_def Let_def)
    next
      case (Inr handled)
      from handle_keeps [OF Inr] Fulfilled Inr assms that [of handled] show ?thesis
        by (simp add: settle_def Let_def)
    qed
  next
    case (RejectedWith reason)
    with assms that [of ?s1] show ?thesis by (simp add: settle_def Let_def)
  qed
  from s2 keeps show "inFlight (settle n outcome s) = removeAll n (inFlight s)"
    and "pendingRequest (settle n outcome s) = None"
    and "deferred (settle n outcome s) = filter (\<lambda>waiting. fst waiting \<noteq> n) (deferred s)"
    and "ready (settle n outcome s)
           = ready s @ map snd (filter (\<lambda>waiting. fst waiting = n) (deferred s))"
    and "calls (settle n outcome s) = calls s"
    and "nextId (settle n outcome s) = nextId s"
    by simp_all
qed

lemma settle_other: "n \<notin> set (inFlight s) \<Longrightarrow> settle n outcome s = s"
  by (simp add: settle_def)

lemma serialised_initial: "serialised (initialEndpoint jar)"
  by (simp add: serialised_def initialEndpoint_def)

lemma send_while_pending:
  "pendingRequest s = Some n \<Longrightarrow>
     sendToService rt body path paramName False s =
       (AfterPending n,
        s\<lparr>deferred := deferred s @
           [(n, \<lparr>sendData = body, sendPath = path, sendParamName = paramName\<rparr>)]\<rparr>)"
  by (simp add: sendToService_def Let_def)

lemma send_while_idle:
  "pendingRequest s = None \<Longrightarrow>
     sendToService rt body path paramName False s =
       (RequestPromise (nextId s),
        s\<lparr>calls := calls s @
             [(nextId s, postCall (serviceUrlFor rt path) (serviceQueryString rt s) body)],
          inFlight := inFlight s @ [nextId s],
          pendingRequest := Some (nextId s), nextId := Suc (nextId s)\<rparr>)"
  by (simp add: sendToService_def sendUsingEndpointCaller_def Let_def)

lemma serialised_send:
  assumes "serialised s"
  shows "serialised (snd (sendToService rt body path paramName False s))"
proof (cases "pendingRequest s")
  case None
  with assms show ?thesis
    by (auto simp: serialised_def send_while_idle list_all_iff)
next
  case (Some n)
  with assms show ?thesis by (auto simp: serialised_def send_while_pending list_all_iff)
qed

lemma serialised_beacon:
  assumes "serialised s" and "hasSendBeacon rt"
  shows "serialised (snd (sendToService rt body path paramName True s))"
  using assms
  by (simp add: serialised_def sendToService_def sendDataBeforeUnload_def
      sendDataBeforeUnloadUsingBeacon_def Let_def)

lemma serialised_settle:
  assumes "serialised s"
  shows "serialised (settle n outcome s)"
proof (cases "n \<in> set (inFlight s)")
  case True
  with assms have "pendingRequest s = Some n" and "inFlight s = [n]"
    and "list_all (\<lambda>waiting. fst waiting = n) (deferred s)"
    by (cases "pendingRequest s"; auto simp: serialised_def list_all_iff)+
  with settle_in_flight [OF True, of outcome] show ?thesis
    by (simp add: serialised_def list_all_iff filter_empty_conv)
next
  case False
  with assms show ?thesis by (simp add: settle_other)
qed

lemma serialised_runDeferred:
  assumes "serialised s"
  shows "serialised (runDeferred rt s)"
proof (cases "ready s")
  case Nil
  with assms show ?thesis by (simp add: runDeferred_def)
next
  case (Cons waiter others)
  from assms have "serialised (s\<lparr>ready := others\<rparr>)" by (simp add: serialised_def)
  then show ?thesis using Cons by (simp add: runDeferred_def serialised_send)
qed

text \<open>A query and its settlement leave the slot, the sends in flight and the callbacks alone.\<close>

lemma query_frame:
  shows "inFlight (snd (getTopQueries rt params s)) = inFlight s"
    and "pendingRequest (snd (getTopQueries rt params s)) = pendingRequest s"
    and "deferred (snd (getTopQueries rt params s)) = deferred s"
    and "ready (snd (getTopQueries rt params s)) = ready s"
    and "inFlight (snd (getCurrentVisitIdPromise rt s)) = inFlight s"
    and "pendingRequest (snd (getCurrentVisitIdPromise rt s)) = pendingRequest s"
    and "deferred (snd (getCurrentVisitIdPromise rt s)) = deferred s"
    and "ready (snd (getCurrentVisitIdPromise rt s)) = ready s"
    and "inFlight (settleQuery n outcome s) = inFlight s"
    and "pendingRequest (settleQuery n outcome s) = pendingRequest s"
    and "deferred (settleQuery n outcome s) = deferred s"
    and "ready (settleQuery n outcome s) = ready s"
  by (simp_all add: getTopQueries_def getCurrentVisitIdPromise_def getFromService_def
      settleQuery_def Let_def split: option.splits settlement.splits get_purpose.splits)

lemma serialised_step:
  assumes "serialised s" and "hasSendBeacon rt \<or> \<not> causesUnload ev"
  shows "serialised (endpointStep rt s ev)"
proof (cases ev)
  case (SendSearchEvents searchEvents)
  with assms show ?thesis by (simp add: sendSearchEvents_def serialised_send)
next
  case (SendDocumentViewEvent documentViewEvent)
  with assms show ?thesis by (simp add: sendDocumentViewEvent_def serialised_beacon split_beta)
next
  case (SendCustomEvent customEvent)
  with assms show ?thesis by (simp add: sendCustomEvent_def serialised_send split_beta)
next
  case (AskTopQueries params)
  with assms show ?thesis by (simp add: serialised_def query_frame)
next
  case AskCurrentVisitId
  with assms show ?thesis by (simp add: serialised_def query_frame)
next
  case (Settle n outcome)
  with assms show ?thesis by (simp add: serialised_settle)
next
  case (SettleQuery n outcome)
  with assms show ?thesis by (simp add: serialised_def query_frame)
next
  case RunDeferred
  with assms show ?thesis by (simp add: serialised_runDeferred)
qed

lemma serialised_inFlight: "serialised s \<Longrightarrow> length (inFlight s) \<le> 1"
  by (cases "pendingRequest s") (simp_all add: serialised_def)

lemma serialised_run:
  assumes "serialised s" and "hasSendBeacon rt \<or> list_all (\<lambda>ev. \<not> causesUnload ev) events"
  shows "serialised (runEndpoint rt s events)"
  using assms
proof (induction events arbitrary: s)
  case Nil
  then show ?case by (simp add: runEndpoint_def)
next
  case (Cons ev events)
  from Cons.prems have ok: "hasSendBeacon rt \<or> \<not> causesUnload ev"
    and rest: "hasSendBeacon rt \<or> list_all (\<lambda>ev. \<not> causesUnload ev) events"
    by auto
  have after: "serialised (endpointStep rt s ev)"
    using Cons.prems(1) ok by (rule serialised_step)
  from Cons.IH [OF after rest] show ?case by (simp add: runEndpoint_def)
qed

text \<open>
  With \<^verbatim>\<open>navigator.sendBeacon\<close>, or without document views, the slot does its work: after
  every history at most one request issued by a send is in flight, and a further send
  is registered on it.
\<close>

lemma beacon_path_serialised:
  assumes "hasSendBeacon rt \<or> list_all (\<lambda>ev. \<not> causesUnload ev) events"
  shows "length (inFlight (runEndpoint rt (initialEndpoint jar) events)) \<le> 1"
    and "inFlight (runEndpoint rt (initialEndpoint jar) events) = [n] \<Longrightarrow>
         sendToService rt body path paramName False (runEndpoint rt (initialEndpoint jar) events)
           = (AfterPending n,
              (runEndpoint rt (initialEndpoint jar) events)
                \<lparr>deferred := deferred (runEndpoint rt (initialEndpoint jar) events) @
                   [(n, \<lparr>sendData = body, sendPath = path, sendParamName = paramName\<rparr>)]\<rparr>)"
proof -
  let ?s = "runEndpoint rt (initialEndpoint jar) events"
  have inv: "serialised ?s"
    using serialised_initial assms by (rule serialised_run)
  then show "length (inFlight ?s) \<le> 1" by (rule serialised_inFlight)
  assume "inFlight ?s = [n]"
  with inv have "pendingRequest ?s = Some n"
    by (cases "pendingRequest ?s") (simp_all add: serialised_def)
  then show "sendToService rt body path paramName False ?s
           = (AfterPending n,
              ?s\<lparr>deferred := deferred ?s @
                   [(n, \<lparr>sendData = body, sendPath = path, sendParamName = paramName\<rparr>)]\<rparr>)"
    by (rule send_while_pending)
qed

subsection \<open>Deferred sends are posted\<close>

text \<open>
  In every state, a deferred callback waits for a request in flight, and the slot holds
  one.
\<close>

lemma waitsOnFlight_initial: "waitsOnFlight (initialEndpoint jar)"
  by (simp add: waitsOnFlight_def initialEndpoint_def)

lemma waitsOnFlight_caller:
  assumes "waitsOnFlight s"
  shows "waitsOnFlight (snd (sendUsingEndpointCaller target query body s))"
  using assms by (auto simp: waitsOnFlight_def sendUsingEndpointCaller_def Let_def list_all_iff)

lemma waitsOnFlight_send:
  assumes "waitsOnFlight s"
  shows "waitsOnFlight (snd (sendToService rt body path paramName unload s))"
proof (cases unload)
  case True
  show ?thesis
  proof (cases "hasSendBeacon rt")
    case beacon: True
    with True assms show ?thesis
      by (simp add: waitsOnFlight_def sendToService_def sendDataBeforeUnload_def
          sendDataBeforeUnloadUsingBeacon_def Let_def)
  next
    case False
    from waitsOnFlight_caller [OF assms] have
      "waitsOnFlight (snd (sendUsingEndpointCaller (serviceUrlFor rt path) (serviceQueryString rt s) body s))" .
    then show ?thesis
      using True False
      by (simp add: waitsOnFlight_def sendToService_def sendDataBeforeUnload_def
          sendDataBeforeUnloadUsingHack_def Let_def)
  qed
next
  case False
  show ?thesis
  proof (cases "pendingRequest s")
    case None
    with False waitsOnFlight_caller [OF assms] show ?thesis
      by (simp add: sendToService_def Let_def)
  next
    case (Some n)
    with False assms show ?thesis
      by (auto simp: waitsOnFlight_def send_while_pending list_all_iff)
  qed
qed

lemma waitsOnFlight_settle:
  assumes "waitsOnFlight s"
  shows "waitsOnFlight (settle n outcome s)"
proof (cases "n \<in> set (inFlight s)")
  case True
  from assms settle_in_flight(1,2,3) [OF True, of outcome] show ?thesis
    by (auto simp: waitsOnFlight_def list_all_iff)
next
  case False
  with assms show ?thesis by (simp add: settle_other)
qed

lemma waitsOnFlight_runDeferred:
  assumes "waitsOnFlight s"
  shows "waitsOnFlight (runDeferred rt s)"
proof (cases "ready s")
  case Nil
  with assms show ?thesis by (simp add: runDeferred_def)
next
  case (Cons waiter others)
  from assms have "waitsOnFlight (s\<lparr>ready := others\<rparr>)" by (simp add: waitsOnFlight_def)
  then show ?thesis using Cons by (simp add: runDeferred_def waitsOnFlight_send)
qed

lemma waitsOnFlight_step:
  assumes "waitsOnFlight s"
  shows "waitsOnFlight (endpointStep rt s ev)"
proof (cases ev)
  case (SendSearchEvents searchEvents)
  with assms show ?thesis by (simp add: sendSearchEvents_def waitsOnFlight_send)
next
  case (SendDocumentViewEvent documentViewEvent)
  with assms show ?thesis by (simp add: sendDocumentViewEvent_def waitsOnFlight_send split_beta)
next
  case (SendCustomEvent customEvent)
  with assms show ?thesis by (simp add: sendCustomEvent_def waitsOnFlight_send split_beta)
next
  case (AskTopQueries params)
  with assms show ?thesis by (simp add: waitsOnFlight_def query_frame)
next
  case AskCurrentVisitId
  with assms show ?thesis by (simp add: waitsOnFlight_def query_frame)
next
  case (Settle n outcome)
  with assms show ?thesis by (simp add: waitsOnFlight_settle)
next
  case (SettleQuery n outcome)
  with assms show ?thesis by (simp add: waitsOnFlight_def query_frame)
next
  case RunDeferred
  with assms show ?thesis by (simp add: waitsOnFlight_runDeferred)
qed

lemma waitsOnFlight_run: "waitsOnFlight s \<Longrightarrow> waitsOnFlight (runEndpoint rt s events)"
  by (induction events arbitrary: s) (simp_all add: runEndpoint_def waitsOnFlight_step)

lemma waitsOnFlight_history: "waitsOnFlight (runEndpoint rt (initialEndpoint jar) events)"
  using waitsOnFlight_initial by (rule waitsOnFlight_run)

lemma waitsOnFlight_funpow:
  "waitsOnFlight s \<Longrightarrow> waitsOnFlight ((runDeferred rt ^^ k) s)"
  by (induction k) (simp_all add: waitsOnFlight_runDeferred)

lemma waitsOnFlight_settleNext:
  assumes "waitsOnFlight s"
  shows "waitsOnFlight (settleNext rt outcome s)"
  using assms
  by (cases "inFlight s")
     (simp_all add: settleNext_def runReady_def waitsOnFlight_funpow waitsOnFlight_settle)

lemma waitsOnFlight_idle:
  assumes "waitsOnFlight s" and "inFlight s = []"
  shows "deferred s = []" and "pendingRequest s = None"
  using assms
  by (cases "deferred s"; cases "pendingRequest s"; simp add: waitsOnFlight_def)+

text \<open>
  Nothing is lost: a settlement and the run of a callback keep the number of posts and
  waiting sends of a body to a path together.
\<close>

lemma waiting_split:
  "length (filter P (map snd (filter (\<lambda>waiting. fst waiting = n) xs)))
     + length (filter P (map snd (filter (\<lambda>waiting. fst waiting \<noteq> n) xs)))
   = length (filter P (map snd xs))"
  by (induction xs) auto

lemma settle_accounts:
  "postedTo rt body path (settle n outcome s) + waitingFor rt body path (settle n outcome s)
     = postedTo rt body path s + waitingFor rt body path s"
proof (cases "n \<in> set (inFlight s)")
  case True
  let ?P = "\<lambda>waiter. sendData waiter = body
      \<and> serviceUrlFor rt (sendPath waiter) = serviceUrlFor rt path"
  let ?here = "filter (\<lambda>waiting. fst waiting = n) (deferred s)"
  let ?there = "filter (\<lambda>waiting. fst waiting \<noteq> n) (deferred s)"
  have "length (filter ?P (map snd ?here)) + length (filter ?P (map snd ?there))
      = length (filter ?P (map snd (deferred s)))"
    by (rule waiting_split)
  then have "waitingFor rt body path (settle n outcome s) = waitingFor rt body path s"
    using settle_in_flight(3,4) [OF True, of outcome]
    by (simp add: waitingFor_def)
  moreover have "postedTo rt body path (settle n outcome s) = postedTo rt body path s"
    using settle_in_flight(5) [OF True, of outcome] by (simp add: postedTo_def)
  ultimately show ?thesis by simp
next
  case False
  then show ?thesis by (simp add: settle_other)
qed

lemma runDeferred_accounts:
  "postedTo rt body path (runDeferred rt s) + waitingFor rt body path (runDeferred rt s)
     = postedTo rt body path s + waitingFor rt body path s"
proof (cases "ready s")
  case Nil
  then show ?thesis by (simp add: runDeferred_def)
next
  case (Cons waiter others)
  show ?thesis
  proof (cases "pendingRequest s")
    case None
    then have idle: "pendingRequest (s\<lparr>ready := others\<rparr>) = None" by simp
    show ?thesis
      using Cons
      by (simp add: runDeferred_def send_while_idle [OF idle] postedTo_def waitingFor_def
          postCall_def)
  next
    case (Some n)
    then have busy: "pendingRequest (s\<lparr>ready := others\<rparr>) = Some n" by simp
    show ?thesis
      using Cons
      by (simp add: runDeferred_def send_while_pending [OF busy] postedTo_def waitingFor_def)
  qed
qed

lemma funpow_accounts:
  "postedTo rt body path ((runDeferred rt ^^ k) s) + waitingFor rt body path ((runDeferred rt ^^ k) s)
     = postedTo rt body path s + waitingFor rt body path s"
  by (induction k) (simp_all add: runDeferred_accounts)

lemma settleNext_accounts:
  "postedTo rt body path (settleNext rt outcome s) + waitingFor rt body path (settleNext rt outcome s)
     = postedTo rt body path s + waitingFor rt body path s"
  by (cases "inFlight s") (simp_all add: settleNext_def runReady_def funpow_accounts settle_accounts)

text \<open>
  Progress: the run of a callback takes it from the ready ones and adds none; a round
  leaves no callback ready and brings \<open>rounds\<close> down.
\<close>

lemma runDeferred_ready: "length (ready (runDeferred rt s)) = length (ready s) - 1"
proof (cases "ready s")
  case Nil
  then show ?thesis by (simp add: runDeferred_def)
next
  case (Cons waiter others)
  then show ?thesis
    by (cases "pendingRequest s")
       (simp_all add: runDeferred_def sendToService_def sendUsingEndpointCaller_def Let_def)
qed

lemma runDeferred_rounds: "rounds (runDeferred rt s) \<le> rounds s"
proof (cases "ready s")
  case Nil
  then show ?thesis by (simp add: runDeferred_def)
next
  case (Cons waiter others)
  then show ?thesis
    by (cases "pendingRequest s")
       (simp_all add: rounds_def runDeferred_def sendToService_def sendUsingEndpointCaller_def
          Let_def)
qed

lemma funpow_ready: "length (ready ((runDeferred rt ^^ k) s)) = length (ready s) - k"
  by (induction k) (simp_all add: runDeferred_ready)

lemma funpow_rounds: "rounds ((runDeferred rt ^^ k) s) \<le> rounds s"
proof (induction k)
  case 0
  show ?case by simp
next
  case (Suc k)
  have "rounds ((runDeferred rt ^^ Suc k) s) \<le> rounds ((runDeferred rt ^^ k) s)"
    by (simp add: runDeferred_rounds)
  with Suc show ?case by simp
qed

lemma runReady_ready: "ready (runReady rt s) = []"
  using funpow_ready [where rt = rt and k = "length (ready s)" and s = s]
  by (simp add: runReady_def)

lemma settle_rounds:
  assumes "n \<in> set (inFlight s)"
  shows "rounds (settle n outcome s) < rounds s"
proof -
  have "length (removeAll n (inFlight s)) < length (inFlight s)"
    using assms by (rule length_removeAll_less)
  moreover have "length (filter (\<lambda>waiting. fst waiting \<noteq> n) (deferred s))
      + length (filter (\<lambda>waiting. fst waiting = n) (deferred s)) = length (deferred s)"
    using sum_length_filter_compl [of "\<lambda>waiting. fst waiting = n" "deferred s"] by simp
  ultimately show ?thesis
    using settle_in_flight(1,3,4) [OF assms, of outcome] by (simp add: rounds_def)
qed

lemma settleNext_rounds:
  assumes "inFlight s \<noteq> []"
  shows "rounds (settleNext rt outcome s) < rounds s"
    and "ready (settleNext rt outcome s) = []"
proof -
  from assms obtain n others where flying: "inFlight s = n # others"
    by (cases "inFlight s") simp_all
  then have "n \<in> set (inFlight s)" by simp
  then have "rounds (settle n (outcome n) s) < rounds s" by (rule settle_rounds)
  moreover have "rounds (runReady rt (settle n (outcome n) s)) \<le> rounds (settle n (outcome n) s)"
    by (simp add: runReady_def funpow_rounds)
  ultimately show "rounds (settleNext rt outcome s) < rounds s"
    using flying by (simp add: settleNext_def)
  show "ready (settleNext rt outcome s) = []"
    using flying by (simp add: settleNext_def runReady_ready)
qed

text \<open>
  After enough rounds nothing is in flight, registered or ready, and every send that was
  waiting has been posted.
\<close>

lemma drained:
  assumes "waitsOnFlight s" and "inFlight s = [] \<longrightarrow> ready s = []" and "rounds s \<le> k"
  shows "inFlight ((settleNext rt outcome ^^ k) s) = []
       \<and> deferred ((settleNext rt outcome ^^ k) s) = []
       \<and> ready ((settleNext rt outcome ^^ k) s) = []
       \<and> postedTo rt body path ((settleNext rt outcome ^^ k) s)
           = postedTo rt body path s + waitingFor rt body path s"
  using assms
proof (induction k arbitrary: s)
  case 0
  then have "inFlight s = []" and "deferred s = []" and "ready s = []"
    by (simp_all add: rounds_def)
  then show ?case by (simp add: waitingFor_def)
next
  case (Suc k)
  let ?s' = "settleNext rt outcome s"
  have step: "(settleNext rt outcome ^^ Suc k) s = (settleNext rt outcome ^^ k) ?s'"
    by (simp add: funpow_swap1)
  have inv: "waitsOnFlight ?s'" using Suc.prems(1) by (rule waitsOnFlight_settleNext)
  have "(inFlight ?s' = [] \<longrightarrow> ready ?s' = []) \<and> rounds ?s' \<le> k"
  proof (cases "inFlight s = []")
    case True
    with Suc.prems have "ready s = []" and "deferred s = []"
      by (simp_all add: waitsOnFlight_idle)
    with True show ?thesis by (simp add: settleNext_def rounds_def)
  next
    case False
    from settleNext_rounds [OF False, of rt outcome] Suc.prems(3) show ?thesis by simp
  qed
  then have "inFlight ((settleNext rt outcome ^^ k) ?s') = []
       \<and> deferred ((settleNext rt outcome ^^ k) ?s') = []
       \<and> ready ((settleNext rt outcome ^^ k) ?s') = []
       \<and> postedTo rt body path ((settleNext rt outcome ^^ k) ?s')
           = postedTo rt body path ?s' + waitingFor rt body path ?s'"
    using Suc.IH [OF inv] by simp
  then show ?case
    using settleNext_accounts [where rt = rt and body = body and path = path
        and outcome = outcome and s = s]
    unfolding step by simp
qed

subsection \<open>Claims about the endpoint\<close>

text \<open>
  \<^bold>\<open>C1.\<close> For every two non-unload-causing sends (\<open>sendSearchEvents\<close> with a non-empty
  batch, \<open>sendCustomEvent\<close>) issued while another is outstanding, at most one non-unload
  request is in flight at any time: the second send does not begin its network call until
  the first request's promise has settled, after which it re-enters the sequencing logic.

  This is what \<open>sendToService\<close> sets out to do (its comment: no two requests to analytics
  at the same time), and with \<^verbatim>\<open>navigator.sendBeacon\<close> it does (lemma
  \<open>beacon_path_serialised\<close>). Where \<^verbatim>\<open>navigator.sendBeacon\<close> is missing it does not: a
  document-view send then goes through \<open>sendUsingEndpointCaller\<close> at once and overwrites
  \<open>pendingRequest\<close>. In the history below the custom event \<open>b\<close> is sent while the custom
  event \<open>a\<close> (request 0) and the document view (request 1) are in flight; it is registered
  on request 1 only, and starts as request 2 when request 1 has settled, while request 0
  is still in flight. With \<^verbatim>\<open>navigator.sendBeacon\<close> the same three sends leave \<open>b\<close>
  waiting for \<open>a\<close>.
\<close>

theorem nonUnload_sends_overlap:
  "\<not> hasSendBeacon (exampleRuntime False)
   \<and> \<not> causesUnload (SendCustomEvent ''a'') \<and> \<not> causesUnload (SendCustomEvent ''b'')
   \<and> inFlight (runEndpoint (exampleRuntime False) (initialEndpoint Map.empty)
       [SendCustomEvent ''a'', SendDocumentViewEvent ''click'', SendCustomEvent ''b'']) = [0, 1]
   \<and> deferred (runEndpoint (exampleRuntime False) (initialEndpoint Map.empty)
       [SendCustomEvent ''a'', SendDocumentViewEvent ''click'', SendCustomEvent ''b''])
       = [(1, \<lparr>sendData = CustomEvent ''b'', sendPath = ''custom'', sendParamName = ''customEvent''\<rparr>)]
   \<and> inFlight (runEndpoint (exampleRuntime False) (initialEndpoint Map.empty)
       [SendCustomEvent ''a'', SendDocumentViewEvent ''click'', SendCustomEvent ''b'',
        Settle 1 (RejectedWith (ErrorResponse 500 ''boom'')), RunDeferred]) = [0, 2]
   \<and> map (\<lambda>issued. (fst issued, requestData (snd issued)))
        (calls (runEndpoint (exampleRuntime False) (initialEndpoint Map.empty)
          [SendCustomEvent ''a'', SendDocumentViewEvent ''click'', SendCustomEvent ''b'',
           Settle 1 (RejectedWith (ErrorResponse 500 ''boom'')), RunDeferred]))
       = [(0, CustomEvent ''a''), (1, ClickEvent ''click''), (2, CustomEvent ''b'')]
   \<and> inFlight (runEndpoint (exampleRuntime True) (initialEndpoint Map.empty)
       [SendCustomEvent ''a'', SendDocumentViewEvent ''click'', SendCustomEvent ''b'']) = [0]
   \<and> deferred (runEndpoint (exampleRuntime True) (initialEndpoint Map.empty)
       [SendCustomEvent ''a'', SendDocumentViewEvent ''click'', SendCustomEvent ''b''])
       = [(0, \<lparr>sendData = CustomEvent ''b'', sendPath = ''custom'', sendParamName = ''customEvent''\<rparr>)]"
  by (simp add: endpoint_eval)

text \<open>
  \<^bold>\<open>C5.\<close> After handling any response that carries a visitId/visitorId pair (either
  directly on the response, or, for a batched search-event response, on the first element
  of \<open>searchEventResponses\<close>), a subsequent \<open>getCurrentVisitId()\<close> returns the new visit id
  with no network call, and the \<open>visitorId\<close> cookie holds the new visitor id.

  An id is a non-empty string (the source tests the ids for truthiness), and a batched
  response is one without a visit id of its own. Handling changes the field and the cookie
  and nothing else, so no call is issued; \<^const>\<open>getCurrentVisitId\<close> reads the field. The
  same holds when the response arrives as the settlement of a request in flight.
\<close>

theorem response_updates_session:
  assumes "v \<noteq> []" and "w \<noteq> []"
    and "(responseVisitId response = Some v \<and> responseVisitorId response = Some w)
       \<or> (\<not> truthy (responseVisitId response)
          \<and> (\<exists>first others. searchEventResponses response = Some (first # others)
                \<and> eventVisitId first = Some v \<and> eventVisitorId first = Some w))"
  shows "handleAnalyticsEventResponse response s
           = Inr (s\<lparr>visitId := Some v, cookies := (cookies s)(''visitorId'' \<mapsto> w)\<rparr>)
       \<and> getCurrentVisitId (s\<lparr>visitId := Some v, cookies := (cookies s)(''visitorId'' \<mapsto> w)\<rparr>) = Some v
       \<and> Cookie_get ''visitorId'' (s\<lparr>visitId := Some v, cookies := (cookies s)(''visitorId'' \<mapsto> w)\<rparr>)
           = Some w
       \<and> calls (s\<lparr>visitId := Some v, cookies := (cookies s)(''visitorId'' \<mapsto> w)\<rparr>) = calls s
       \<and> (n \<in> set (inFlight s) \<longrightarrow>
            getCurrentVisitId (settle n (Fulfilled response) s) = Some v
          \<and> Cookie_get ''visitorId'' (settle n (Fulfilled response) s) = Some w
          \<and> calls (settle n (Fulfilled response) s) = calls s)"
proof -
  have handled: "handleAnalyticsEventResponse response t
           = Inr (t\<lparr>visitId := Some v, cookies := (cookies t)(''visitorId'' \<mapsto> w)\<rparr>)" for t
    using assms
    by (auto simp: handleAnalyticsEventResponse_def truthy_def Cookie_set_def Let_def)
  show ?thesis
    by (simp add: handled getCurrentVisitId_def Cookie_get_def settle_def Let_def)
qed

theorem response_updates_session_witness:
  "''v2'' \<noteq> [] \<and> ''w2'' \<noteq> []
   \<and> getCurrentVisitId (runEndpoint (exampleRuntime True) (initialEndpoint Map.empty)
        [SendCustomEvent ''a'', Settle 0 (Fulfilled (visitResponse ''v2'' ''w2''))]) = Some ''v2''
   \<and> Cookie_get ''visitorId'' (runEndpoint (exampleRuntime True) (initialEndpoint Map.empty)
        [SendCustomEvent ''a'', Settle 0 (Fulfilled (visitResponse ''v2'' ''w2''))]) = Some ''w2''
   \<and> getCurrentVisitId (runEndpoint (exampleRuntime True) (initialEndpoint Map.empty)
        [SendSearchEvents [''a''],
         Settle 0 (Fulfilled \<lparr>responseVisitId = None, responseVisitorId = None,
           searchEventResponses = Some [\<lparr>eventVisitId = Some ''v3'', eventVisitorId = Some ''w3''\<rparr>,
             \<lparr>eventVisitId = Some ''v4'', eventVisitorId = Some ''w4''\<rparr>]\<rparr>)]) = Some ''v3''
   \<and> Cookie_get ''visitorId'' (runEndpoint (exampleRuntime True) (initialEndpoint Map.empty)
        [SendSearchEvents [''a''],
         Settle 0 (Fulfilled \<lparr>responseVisitId = None, responseVisitorId = None,
           searchEventResponses = Some [\<lparr>eventVisitId = Some ''v3'', eventVisitorId = Some ''w3''\<rparr>,
             \<lparr>eventVisitId = Some ''v4'', eventVisitorId = Some ''w4''\<rparr>]\<rparr>)]) = Some ''w3''"
proof -
  let ?s = "runEndpoint (exampleRuntime True) (initialEndpoint Map.empty) [SendCustomEvent ''a'']"
  let ?t = "runEndpoint (exampleRuntime True) (initialEndpoint Map.empty) [SendSearchEvents [''a'']]"
  let ?batch = "\<lparr>responseVisitId = None, responseVisitorId = None,
           searchEventResponses = Some [\<lparr>eventVisitId = Some ''v3'', eventVisitorId = Some ''w3''\<rparr>,
             \<lparr>eventVisitId = Some ''v4'', eventVisitorId = Some ''w4''\<rparr>]\<rparr>"
  have v: "''v2'' \<noteq> []" and w: "''w2'' \<noteq> []" and v3: "''v3'' \<noteq> []" and w3: "''w3'' \<noteq> []"
    by simp_all
  have direct: "(responseVisitId (visitResponse ''v2'' ''w2'') = Some ''v2''
        \<and> responseVisitorId (visitResponse ''v2'' ''w2'') = Some ''w2'')
       \<or> (\<not> truthy (responseVisitId (visitResponse ''v2'' ''w2''))
          \<and> (\<exists>first others. searchEventResponses (visitResponse ''v2'' ''w2'') = Some (first # others)
                \<and> eventVisitId first = Some ''v2'' \<and> eventVisitorId first = Some ''w2''))"
    by (simp add: visitResponse_def)
  have batched: "(responseVisitId ?batch = Some ''v3'' \<and> responseVisitorId ?batch = Some ''w3'')
       \<or> (\<not> truthy (responseVisitId ?batch)
          \<and> (\<exists>first others. searchEventResponses ?batch = Some (first # others)
                \<and> eventVisitId first = Some ''v3'' \<and> eventVisitorId first = Some ''w3''))"
    by (simp add: truthy_def)
  have flying: "0 \<in> set (inFlight ?s)" "0 \<in> set (inFlight ?t)"
    by (simp_all add: endpoint_eval)
  have split: "runEndpoint rt s0 [ev1, ev2] = endpointStep rt (runEndpoint rt s0 [ev1]) ev2"
    for rt s0 ev1 ev2
    by (simp add: runEndpoint_def)
  from response_updates_session [OF v w direct, where n = 0 and s = ?s]
    response_updates_session [OF v3 w3 batched, where n = 0 and s = ?t] flying
  show ?thesis by (simp add: split)
qed

text \<open>
  \<^bold>\<open>C9.\<close> \<open>sendSearchEvents\<close> applied to an empty event list performs zero network calls
  and returns nothing; applied to a non-empty list it posts the batch to the \<open>searches\<close>
  sub-path.

  With no request pending the batch is posted at once, to the \<open>searches\<close> path below
  \<open>/rest/\<close>version\<open>/analytics/\<close>. With a request pending, in any state \<open>t\<close> that a history
  of the endpoint reaches, the send issues no call yet and is registered on the pending
  promise; once the requests in flight have settled, whatever their outcomes, and the
  callbacks have run (\<open>rounds\<close> says how many rounds are enough), nothing is left waiting
  and the batch has been posted to \<open>searches\<close>: exactly once more than the posts of the
  same batch made or waiting before.
\<close>

theorem sendSearchEvents_empty_or_posted:
  "sendSearchEvents rt [] s = (Undefined, s)
   \<and> (searchEvents \<noteq> [] \<and> pendingRequest s = None \<longrightarrow>
        sendSearchEvents rt searchEvents s
          = (RequestPromise (nextId s),
             s\<lparr>calls := calls s @
                  [(nextId s,
                    \<lparr>errorsAsSuccess = False, httpMethod = POST,
                      queryString = serviceQueryString rt s,
                      requestData = SearchEvents searchEvents,
                      url = mergePath rt (serviceUrl (options rt))
                              (''/rest/'' @ analyticsVersion rt @ ''/analytics/searches''),
                      responseType = ''text'', requestDataType = Some ''application/json''\<rparr>)],
               inFlight := inFlight s @ [nextId s],
               pendingRequest := Some (nextId s), nextId := Suc (nextId s)\<rparr>))
   \<and> (t = runEndpoint rt (initialEndpoint jar) events
        \<and> searchEvents \<noteq> [] \<and> pendingRequest t = Some n
        \<and> rounds (snd (sendSearchEvents rt searchEvents t)) \<le> k \<longrightarrow>
        sendSearchEvents rt searchEvents t
          = (AfterPending n,
             t\<lparr>deferred := deferred t @
                  [(n, \<lparr>sendData = SearchEvents searchEvents, sendPath = ''searches'',
                        sendParamName = ''searchEvents''\<rparr>)]\<rparr>)
      \<and> inFlight ((settleNext rt outcome ^^ k) (snd (sendSearchEvents rt searchEvents t))) = []
      \<and> deferred ((settleNext rt outcome ^^ k) (snd (sendSearchEvents rt searchEvents t))) = []
      \<and> ready ((settleNext rt outcome ^^ k) (snd (sendSearchEvents rt searchEvents t))) = []
      \<and> postedTo rt (SearchEvents searchEvents) ''searches''
            ((settleNext rt outcome ^^ k) (snd (sendSearchEvents rt searchEvents t)))
          = postedTo rt (SearchEvents searchEvents) ''searches'' t
            + waitingFor rt (SearchEvents searchEvents) ''searches'' t + 1)"
proof -
  have empty: "sendSearchEvents rt [] s = (Undefined, s)"
    by (simp add: sendSearchEvents_def)
  have idle: "sendSearchEvents rt searchEvents s
          = (RequestPromise (nextId s),
             s\<lparr>calls := calls s @
                  [(nextId s,
                    \<lparr>errorsAsSuccess = False, httpMethod = POST,
                      queryString = serviceQueryString rt s,
                      requestData = SearchEvents searchEvents,
                      url = mergePath rt (serviceUrl (options rt))
                              (''/rest/'' @ analyticsVersion rt @ ''/analytics/searches''),
                      responseType = ''text'', requestDataType = Some ''application/json''\<rparr>)],
               inFlight := inFlight s @ [nextId s],
               pendingRequest := Some (nextId s), nextId := Suc (nextId s)\<rparr>)"
    if "searchEvents \<noteq> []" and "pendingRequest s = None"
    using that by (simp add: sendSearchEvents_def send_while_idle serviceUrlFor_def postCall_def)
  have busy: "sendSearchEvents rt searchEvents t
          = (AfterPending n,
             t\<lparr>deferred := deferred t @
                  [(n, \<lparr>sendData = SearchEvents searchEvents, sendPath = ''searches'',
                        sendParamName = ''searchEvents''\<rparr>)]\<rparr>)
      \<and> inFlight ((settleNext rt outcome ^^ k) (snd (sendSearchEvents rt searchEvents t))) = []
      \<and> deferred ((settleNext rt outcome ^^ k) (snd (sendSearchEvents rt searchEvents t))) = []
      \<and> ready ((settleNext rt outcome ^^ k) (snd (sendSearchEvents rt searchEvents t))) = []
      \<and> postedTo rt (SearchEvents searchEvents) ''searches''
            ((settleNext rt outcome ^^ k) (snd (sendSearchEvents rt searchEvents t)))
          = postedTo rt (SearchEvents searchEvents) ''searches'' t
            + waitingFor rt (SearchEvents searchEvents) ''searches'' t + 1"
    if reached: "t = runEndpoint rt (initialEndpoint jar) events"
      and batch: "searchEvents \<noteq> []" and pending: "pendingRequest t = Some n"
      and enough: "rounds (snd (sendSearchEvents rt searchEvents t)) \<le> k"
  proof -
    let ?waiter = "\<lparr>sendData = SearchEvents searchEvents, sendPath = ''searches'',
                        sendParamName = ''searchEvents''\<rparr>"
    let ?t1 = "t\<lparr>deferred := deferred t @ [(n, ?waiter)]\<rparr>"
    have sent: "sendSearchEvents rt searchEvents t = (AfterPending n, ?t1)"
      using batch pending by (simp add: sendSearchEvents_def send_while_pending)
    have "waitsOnFlight t" unfolding reached by (rule waitsOnFlight_history)
    with pending have inv: "waitsOnFlight ?t1" and flying: "inFlight ?t1 \<noteq> []"
      by (auto simp: waitsOnFlight_def list_all_iff)
    from flying have ready: "inFlight ?t1 = [] \<longrightarrow> ready ?t1 = []" by simp
    from enough have bound: "rounds ?t1 \<le> k" by (simp add: sent)
    have before: "postedTo rt (SearchEvents searchEvents) ''searches'' ?t1
          = postedTo rt (SearchEvents searchEvents) ''searches'' t"
      "waitingFor rt (SearchEvents searchEvents) ''searches'' ?t1
          = waitingFor rt (SearchEvents searchEvents) ''searches'' t + 1"
      by (simp_all add: postedTo_def waitingFor_def)
    from drained [OF inv ready bound, where rt = rt and outcome = outcome
        and body = "SearchEvents searchEvents" and path = "''searches''"] before
    show ?thesis by (simp add: sent)
  qed
  from empty idle busy show ?thesis by blast
qed

theorem sendSearchEvents_empty_or_posted_witness:
  "calls (snd (sendSearchEvents (exampleRuntime True) [] (initialEndpoint Map.empty))) = []
   \<and> fst (sendSearchEvents (exampleRuntime True) [] (initialEndpoint Map.empty)) = Undefined
   \<and> [''e1'', ''e2''] \<noteq> [] \<and> pendingRequest (initialEndpoint Map.empty) = None
   \<and> fst (sendSearchEvents (exampleRuntime True) [''e1'', ''e2''] (initialEndpoint Map.empty))
       = RequestPromise 0
   \<and> calls (snd (sendSearchEvents (exampleRuntime True) [''e1'', ''e2''] (initialEndpoint Map.empty)))
       = [(0, \<lparr>errorsAsSuccess = False, httpMethod = POST, queryString = [''org=o''],
               requestData = SearchEvents [''e1'', ''e2''],
               url = ''https://usageanalytics.coveo.com/rest/v15/analytics/searches'',
               responseType = ''text'', requestDataType = Some ''application/json''\<rparr>)]
   \<and> [''e1''] \<noteq> []
   \<and> pendingRequest (runEndpoint (exampleRuntime True) (initialEndpoint Map.empty)
        [SendCustomEvent ''c'']) = Some 0
   \<and> rounds (snd (sendSearchEvents (exampleRuntime True) [''e1'']
        (runEndpoint (exampleRuntime True) (initialEndpoint Map.empty) [SendCustomEvent ''c'']))) \<le> 3
   \<and> map (requestData \<circ> snd) (calls (snd (sendSearchEvents (exampleRuntime True) [''e1'']
        (runEndpoint (exampleRuntime True) (initialEndpoint Map.empty) [SendCustomEvent ''c'']))))
       = [CustomEvent ''c'']
   \<and> postedTo (exampleRuntime True) (SearchEvents [''e1'']) ''searches''
        ((settleNext (exampleRuntime True) (\<lambda>n. Fulfilled (visitResponse ''v'' ''w'')) ^^ 3)
           (snd (sendSearchEvents (exampleRuntime True) [''e1'']
              (runEndpoint (exampleRuntime True) (initialEndpoint Map.empty)
                 [SendCustomEvent ''c''])))) = 1
   \<and> map snd (calls
        ((settleNext (exampleRuntime True) (\<lambda>n. Fulfilled (visitResponse ''v'' ''w'')) ^^ 3)
           (snd (sendSearchEvents (exampleRuntime True) [''e1'']
              (runEndpoint (exampleRuntime True) (initialEndpoint Map.empty)
                 [SendCustomEvent ''c''])))))
       = [\<lparr>errorsAsSuccess = False, httpMethod = POST, queryString = [''org=o''],
            requestData = CustomEvent ''c'',
            url = ''https://usageanalytics.coveo.com/rest/v15/analytics/custom'',
            responseType = ''text'', requestDataType = Some ''application/json''\<rparr>,
          \<lparr>errorsAsSuccess = False, httpMethod = POST, queryString = [''org=o'', ''visitor=w''],
            requestData = SearchEvents [''e1''],
            url = ''https://usageanalytics.coveo.com/rest/v15/analytics/searches'',
            responseType = ''text'', requestDataType = Some ''application/json''\<rparr>]"
proof -
  let ?rt = "exampleRuntime True"
  let ?idle = "initialEndpoint Map.empty"
  let ?busy = "runEndpoint ?rt ?idle [SendCustomEvent ''c'']"
  let ?outcome = "\<lambda>n::nat. Fulfilled (visitResponse ''v'' ''w'')"
  let ?final = "(settleNext ?rt ?outcome ^^ 3) (snd (sendSearchEvents ?rt [''e1''] ?busy))"
  have idle: "[''e1'', ''e2''] \<noteq> [] \<and> pendingRequest ?idle = None"
    by (simp add: initialEndpoint_def)
  have busy: "[''e1''] \<noteq> [] \<and> pendingRequest ?busy = Some 0"
    and enough: "rounds (snd (sendSearchEvents ?rt [''e1''] ?busy)) \<le> 3"
    and before: "postedTo ?rt (SearchEvents [''e1'']) ''searches'' ?busy = 0"
      "waitingFor ?rt (SearchEvents [''e1'']) ''searches'' ?busy = 0"
    and notYet: "map (requestData \<circ> snd) (calls (snd (sendSearchEvents ?rt [''e1''] ?busy)))
        = [CustomEvent ''c'']"
    by (simp_all add: endpoint_eval rounds_def postedTo_def waitingFor_def)
  have issued: "map snd (calls ?final)
       = [\<lparr>errorsAsSuccess = False, httpMethod = POST, queryString = [''org=o''],
            requestData = CustomEvent ''c'',
            url = ''https://usageanalytics.coveo.com/rest/v15/analytics/custom'',
            responseType = ''text'', requestDataType = Some ''application/json''\<rparr>,
          \<lparr>errorsAsSuccess = False, httpMethod = POST, queryString = [''org=o'', ''visitor=w''],
            requestData = SearchEvents [''e1''],
            url = ''https://usageanalytics.coveo.com/rest/v15/analytics/searches'',
            responseType = ''text'', requestDataType = Some ''application/json''\<rparr>]"
    by (simp add: endpoint_eval settleNext_def runReady_def eval_nat_numeral)
  note first = sendSearchEvents_empty_or_posted
    [where rt = ?rt and s = ?idle and searchEvents = "[''e1'', ''e2'']"]
  note second = sendSearchEvents_empty_or_posted
    [where rt = ?rt and s = ?idle and t = ?busy and jar = Map.empty
       and events = "[SendCustomEvent ''c'']" and searchEvents = "[''e1'']" and n = 0 and k = 3
       and outcome = ?outcome]
  have reached: "?busy = runEndpoint ?rt (initialEndpoint Map.empty) [SendCustomEvent ''c'']
      \<and> [''e1''] \<noteq> [] \<and> pendingRequest ?busy = Some 0
      \<and> rounds (snd (sendSearchEvents ?rt [''e1''] ?busy)) \<le> 3"
    using busy enough by simp
  from second [THEN conjunct2, THEN conjunct2, THEN mp, OF reached]
  have "postedTo ?rt (SearchEvents [''e1'']) ''searches'' ?final
      = postedTo ?rt (SearchEvents [''e1'']) ''searches'' ?busy
        + waitingFor ?rt (SearchEvents [''e1'']) ''searches'' ?busy + 1"
    by (elim conjE)
  then have posted: "postedTo ?rt (SearchEvents [''e1'']) ''searches'' ?final = 1"
    unfolding before by simp
  from first idle have now:
    "sendSearchEvents ?rt [] ?idle = (Undefined, ?idle)
     \<and> sendSearchEvents ?rt [''e1'', ''e2''] ?idle
       = (RequestPromise (nextId ?idle),
          ?idle\<lparr>calls := calls ?idle @
                  [(nextId ?idle,
                    \<lparr>errorsAsSuccess = False, httpMethod = POST,
                      queryString = serviceQueryString ?rt ?idle,
                      requestData = SearchEvents [''e1'', ''e2''],
                      url = mergePath ?rt (serviceUrl (options ?rt))
                              (''/rest/'' @ analyticsVersion ?rt @ ''/analytics/searches''),
                      responseType = ''text'', requestDataType = Some ''application/json''\<rparr>)],
               inFlight := inFlight ?idle @ [nextId ?idle],
               pendingRequest := Some (nextId ?idle), nextId := Suc (nextId ?idle)\<rparr>)"
    by simp
  have shape: "calls (snd (sendSearchEvents ?rt [] ?idle)) = []
     \<and> fst (sendSearchEvents ?rt [] ?idle) = Undefined
     \<and> fst (sendSearchEvents ?rt [''e1'', ''e2''] ?idle) = RequestPromise 0
     \<and> calls (snd (sendSearchEvents ?rt [''e1'', ''e2''] ?idle))
       = [(0, \<lparr>errorsAsSuccess = False, httpMethod = POST, queryString = [''org=o''],
               requestData = SearchEvents [''e1'', ''e2''],
               url = ''https://usageanalytics.coveo.com/rest/v15/analytics/searches'',
               responseType = ''text'', requestDataType = Some ''application/json''\<rparr>)]"
    unfolding now [THEN conjunct1] now [THEN conjunct2]
    by (simp add: endpoint_eval)
  from shape idle busy enough notYet posted issued show ?thesis by simp
qed


end
